theory Spec2Isabelle
  imports Main "HOL-Library.Multiset" "HOL-Library.List_Lexorder" "HOL-Library.Char_ord"
begin

section \<open>Python values\<close>

text \<open>
  The payloads, reports and policy files of \<open>sovereign_recursion\<close> are Python values as
  the \<open>json\<close> module reads and writes them. The type is parameterised by the type of
  dictionary keys: a value parsed by \<open>json.loads\<close> has string keys only
  (\<open>string pyval\<close>), a dictionary built in memory may also have integer keys
  (\<open>pykey pyval\<close>). A dictionary is an association list in insertion order. A float is
  carried by the text \<open>repr\<close> gives it. Strings are byte strings; case mapping and
  stripping are the ASCII ones.
\<close>

datatype 'k pyval =
    PNone
  | PBool bool
  | PInt int
  | PFloat string
  | PStr string
  | PList "'k pyval list"
  | PDict "('k \<times> 'k pyval) list"

datatype pykey = KStr string | KInt int

type_synonym json = "string pyval"

section \<open>Builtins of Python the code uses\<close>

text \<open>The exceptions that the modelled functions raise, as values.\<close>

datatype error =
    ValueError string
  | TypeError
  | AttributeError
  | FileNotFoundError
  | SystemExit string

text \<open>\<open>str.upper\<close>, \<open>str.lower\<close> and \<open>str.strip\<close> on ASCII.\<close>

definition upper_char :: "char \<Rightarrow> char" where
  "upper_char c =
     (case map_of (zip ''abcdefghijklmnopqrstuvwxyz'' ''ABCDEFGHIJKLMNOPQRSTUVWXYZ'') c of
        Some u \<Rightarrow> u
      | None \<Rightarrow> c)"

definition lower_char :: "char \<Rightarrow> char" where
  "lower_char c =
     (case map_of (zip ''ABCDEFGHIJKLMNOPQRSTUVWXYZ'' ''abcdefghijklmnopqrstuvwxyz'') c of
        Some l \<Rightarrow> l
      | None \<Rightarrow> c)"

definition upper :: "string \<Rightarrow> string" where
  "upper s = map upper_char s"

definition lower :: "string \<Rightarrow> string" where
  "lower s = map lower_char s"

definition is_space :: "char \<Rightarrow> bool" where
  "is_space c = (c \<in> set [CHR 0x09, CHR 0x0A, CHR 0x0B, CHR 0x0C, CHR 0x0D,
                              CHR 0x1C, CHR 0x1D, CHR 0x1E, CHR 0x1F, CHR 0x20])"

definition strip :: "string \<Rightarrow> string" where
  "strip s = rev (dropWhile is_space (rev (dropWhile is_space s)))"

text \<open>\<open>sep.join(parts)\<close>.\<close>

fun join :: "string \<Rightarrow> string list \<Rightarrow> string" where
  "join sep [] = []"
| "join sep [x] = x"
| "join sep (x # y # ys) = x @ sep @ join sep (y # ys)"

text \<open>Decimal text of an integer (\<open>str(n)\<close>, \<open>f"{n}"\<close>), and the hexadecimal digits.\<close>

definition digit_char :: "nat \<Rightarrow> char" where
  "digit_char n = ''0123456789abcdef'' ! n"

fun show_nat :: "nat \<Rightarrow> string" where
  "show_nat n = (if n < 10 then [digit_char n] else show_nat (n div 10) @ [digit_char (n mod 10)])"

declare show_nat.simps [simp del]

definition show_int :: "int \<Rightarrow> string" where
  "show_int i = (if i < 0 then CHR ''-'' # show_nat (nat (- i)) else show_nat (nat i))"

text \<open>
  \<open>repr\<close> of a string: single quotes unless the string has a single quote and no double
  quote; the backslash, the quote in use and the control characters are escaped.
\<close>

definition repr_char :: "char \<Rightarrow> char \<Rightarrow> string" where
  "repr_char q c =
     (let n = (of_char c :: nat) in
      if c = q \<or> c = CHR 0x5C then [CHR 0x5C, c]
      else if c = CHR 0x09 then [CHR 0x5C, CHR ''t'']
      else if c = CHR 0x0A then [CHR 0x5C, CHR ''n'']
      else if c = CHR 0x0D then [CHR 0x5C, CHR ''r'']
      else if n < 32 \<or> n = 127 then
        [CHR 0x5C, CHR ''x'', digit_char (n div 16), digit_char (n mod 16)]
      else [c])"

definition repr_str :: "string \<Rightarrow> string" where
  "repr_str s =
     (let q = (if CHR 0x27 \<in> set s \<and> CHR 0x22 \<notin> set s then CHR 0x22 else CHR 0x27)
      in [q] @ concat (map (repr_char q) s) @ [q])"

text \<open>\<open>repr(x)\<close> and \<open>str(x)\<close> of a parsed JSON value.\<close>

fun py_repr :: "json \<Rightarrow> string" where
  "py_repr PNone = ''None''"
| "py_repr (PBool b) = (if b then ''True'' else ''False'')"
| "py_repr (PInt i) = show_int i"
| "py_repr (PFloat r) = r"
| "py_repr (PStr s) = repr_str s"
| "py_repr (PList xs) = ''['' @ join '', '' (map py_repr xs) @ '']''"
| "py_repr (PDict kvs) =
     ''{'' @ join '', '' (map (\<lambda>(k, v). repr_str k @ '': '' @ py_repr v) kvs) @ ''}''"

definition py_str :: "json \<Rightarrow> string" where
  "py_str x = (case x of PStr s \<Rightarrow> s | _ \<Rightarrow> py_repr x)"

text \<open>\<open>d.get(key)\<close>, \<open>d.get(key, default)\<close> and \<open>d.pop(key, None)\<close> on a dictionary.\<close>

definition dict_get :: "('k \<times> 'v) list \<Rightarrow> 'k \<Rightarrow> 'v option" where
  "dict_get d key = map_of d key"

definition dict_get_default :: "('k \<times> 'v) list \<Rightarrow> 'k \<Rightarrow> 'v \<Rightarrow> 'v" where
  "dict_get_default d key dflt = (case map_of d key of Some v \<Rightarrow> v | None \<Rightarrow> dflt)"

definition dict_pop :: "('k \<times> 'v) list \<Rightarrow> 'k \<Rightarrow> ('k \<times> 'v) list" where
  "dict_pop d key = filter (\<lambda>kv. fst kv \<noteq> key) d"

text \<open>
  \<open>for x in v\<close>: a list gives its items, a string its characters, a dictionary its keys;
  anything else is not iterable.
\<close>

definition py_iter :: "json \<Rightarrow> error + json list" where
  "py_iter v =
     (case v of
        PList xs \<Rightarrow> Inr xs
      | PStr s \<Rightarrow> Inr (map (\<lambda>c. PStr [c]) s)
      | PDict kvs \<Rightarrow> Inr (map (\<lambda>kv. PStr (fst kv)) kvs)
      | _ \<Rightarrow> Inl TypeError)"

section \<open>The layer checkers and the score (recursion\_engine.py)\<close>

record layer_result =
  status :: string
  issues :: "string list"
  details :: "(string \<times> json) list"

text \<open>\<open>check_cognitive(rating: int | None)\<close>: the branches in the order of the source.\<close>

definition check_cognitive :: "int option \<Rightarrow> layer_result" where
  "check_cognitive rating =
     (case rating of
        None \<Rightarrow> \<lparr>status = ''UNKNOWN'', issues = [''no rating provided''],
                 details = [(''rating'', PNone)]\<rparr>
      | Some r \<Rightarrow>
          (let details = [(''rating'', PInt r)] in
           if r \<le> 2 then
             \<lparr>status = ''OVERLOADED'', issues = [''self-rating low''], details = details\<rparr>
           else if r = 3 then
             \<lparr>status = ''STRAINED'', issues = [], details = details\<rparr>
           else if r \<ge> 4 then
             \<lparr>status = ''STABLE'', issues = [], details = details\<rparr>
           else
             \<lparr>status = ''UNKNOWN'', issues = [''rating out of range''], details = details\<rparr>))"

record sovereign_score =
  total_capability :: int
  dangerous_freedom :: int
  stability :: int

text \<open>
  The body of the loop of \<open>compute_sovereign_score\<close>: one layer's contribution to
  \<open>dangerous_freedom\<close>.
\<close>

definition score_step :: "int \<Rightarrow> string \<times> layer_result \<Rightarrow> int" where
  "score_step df item =
     (let res = snd item in
      if status res = ''DEGRADED'' then df + 10
      else if status res = ''WARNING'' then df + 5
      else if status res \<in> {''OVERLOADED''} then df + 15
      else df)"

definition compute_sovereign_score :: "(string \<times> layer_result) list \<Rightarrow> sovereign_score" where
  "compute_sovereign_score latest_by_layer =
     (let tc = 100;
          df = foldl score_step 0 latest_by_layer;
          st = tc - df
      in \<lparr>total_capability = tc, dangerous_freedom = df, stability = st\<rparr>)"

text \<open>The number of layers of a report that have a given status.\<close>

definition count_status :: "string \<Rightarrow> (string \<times> layer_result) list \<Rightarrow> nat" where
  "count_status s latest_by_layer = length (filter (\<lambda>item. status (snd item) = s) latest_by_layer)"

definition layer_with_status :: "string \<Rightarrow> string \<Rightarrow> string \<times> layer_result" where
  "layer_with_status name s = (name, \<lparr>status = s, issues = [], details = []\<rparr>)"

section \<open>The classification policy (loop\_runner.py)\<close>

record classification_policy =
  hard_layers_on_degraded :: "string set"
  hard_statuses :: "string set"
  soft_statuses :: "string set"
  treat_missing_report_as :: string
  treat_missing_layers_as :: string

definition defaults :: classification_policy where
  "defaults =
     \<lparr>hard_layers_on_degraded = {''meta'', ''codex'', ''digital''},
      hard_statuses = {''CORRUPTED'', ''OVERLOADED''},
      soft_statuses = {''DEGRADED''},
      treat_missing_report_as = ''HARD_FAIL'',
      treat_missing_layers_as = ''HARD_FAIL''\<rparr>"

text \<open>
  The generator of \<open>from_json\<close>,
  \<open>set(f(str(x).strip()) for x in xs if isinstance(x, str) and x.strip())\<close>, where \<open>f\<close> is
  \<open>lower\<close> for layer names and \<open>upper\<close> for statuses.
\<close>

definition str_items :: "(string \<Rightarrow> string) \<Rightarrow> json list \<Rightarrow> string set" where
  "str_items f xs =
     set (concat (map (\<lambda>x. case x of
                            PStr s \<Rightarrow> (if strip s \<noteq> [] then [f (strip (py_str x))] else [])
                          | _ \<Rightarrow> []) xs))"

definition fallback_or_default :: "string \<Rightarrow> string \<Rightarrow> string" where
  "fallback_or_default x dflt =
     (if x \<notin> {''PASS'', ''SOFT_FAIL'', ''HARD_FAIL''} then dflt else x)"

text \<open>
  \<open>ClassificationPolicy.from_json(obj)\<close>, \<open>obj\<close> a dictionary. The default of each
  \<open>obj.get\<close> is the list of the default set. Iterating over a value that is not iterable
  raises \<open>TypeError\<close>. The local function \<open>_as_set\<close> of the source is never called.
\<close>

definition from_json :: "(string \<times> json) list \<Rightarrow> error + classification_policy" where
  "from_json obj =
     (let d = defaults;
          hard_layers =
            dict_get_default obj ''hard_layers_on_degraded''
              (PList [PStr ''meta'', PStr ''codex'', PStr ''digital'']);
          hard_statuses_v =
            dict_get_default obj ''hard_statuses'' (PList [PStr ''CORRUPTED'', PStr ''OVERLOADED'']);
          soft_statuses_v = dict_get_default obj ''soft_statuses'' (PList [PStr ''DEGRADED''])
      in
      case py_iter hard_layers of
        Inl e \<Rightarrow> Inl e
      | Inr hl \<Rightarrow>
      (case py_iter hard_statuses_v of
        Inl e \<Rightarrow> Inl e
      | Inr hs \<Rightarrow>
      (case py_iter soft_statuses_v of
        Inl e \<Rightarrow> Inl e
      | Inr ss \<Rightarrow>
         (let hard_layers_set = str_items lower hl;
              hard_statuses_set = str_items upper hs;
              soft_statuses_set = str_items upper ss;
              missing_report =
                upper (strip (py_str (dict_get_default obj ''treat_missing_report_as''
                                        (PStr (treat_missing_report_as d)))));
              missing_layers =
                upper (strip (py_str (dict_get_default obj ''treat_missing_layers_as''
                                        (PStr (treat_missing_layers_as d)))))
          in Inr
            \<lparr>hard_layers_on_degraded =
               (if hard_layers_set = {} then hard_layers_on_degraded d else hard_layers_set),
             hard_statuses =
               (if hard_statuses_set = {} then hard_statuses d else hard_statuses_set),
             soft_statuses =
               (if soft_statuses_set = {} then soft_statuses d else soft_statuses_set),
             treat_missing_report_as =
               fallback_or_default missing_report (treat_missing_report_as d),
             treat_missing_layers_as =
               fallback_or_default missing_layers (treat_missing_layers_as d)\<rparr>))))"

text \<open>
  \<open>ClassificationPolicy.load(path)\<close>. What the path leads to is the argument: no path, no
  file, a file that cannot be read or parsed, or a file with a JSON value. Every exception
  of the \<open>try\<close> block gives the defaults.
\<close>

datatype policy_path = NoPath | NoSuchFile | Unparseable | PolicyFile json

definition load :: "policy_path \<Rightarrow> classification_policy" where
  "load path =
     (case path of
        NoPath \<Rightarrow> defaults
      | NoSuchFile \<Rightarrow> defaults
      | Unparseable \<Rightarrow> defaults
      | PolicyFile v \<Rightarrow>
          (case v of
             PDict obj \<Rightarrow> (case from_json obj of Inl e \<Rightarrow> defaults | Inr p \<Rightarrow> p)
           | _ \<Rightarrow> defaults))"

section \<open>Classification of a run (loop\_runner.py)\<close>

text \<open>
  \<open>_failing_layers_from_report(report)\<close>; \<open>report.get\<close> on a value that is not a
  dictionary raises \<open>AttributeError\<close>.
\<close>

definition failing_layers_from_report :: "json \<Rightarrow> error + string list" where
  "failing_layers_from_report report =
     (case report of
        PDict r \<Rightarrow>
          (case dict_get r ''layers'' of
             Some (PDict layers) \<Rightarrow>
               Inr (concat (map (\<lambda>(layer, data). case data of
                      PDict dd \<Rightarrow>
                        (let st = upper (py_str (dict_get_default dd ''status'' (PStr '''')))
                         in if st \<in> {''DEGRADED'', ''OVERLOADED'', ''CORRUPTED''}
                            then [layer] else [])
                    | _ \<Rightarrow> []) layers))
           | _ \<Rightarrow> Inr [])
      | _ \<Rightarrow> Inl AttributeError)"

definition action_of :: "string \<Rightarrow> string" where
  "action_of cls =
     (if cls = ''HARD_FAIL'' then ''emit_alert''
      else if cls = ''SOFT_FAIL'' then ''retry'' else ''log_only'')"

text \<open>The body of the loop of \<open>_classify\<close> over \<open>layers.items()\<close>.\<close>

definition classify_step ::
  "classification_policy \<Rightarrow> string list \<times> string list \<Rightarrow> string \<times> json
     \<Rightarrow> string list \<times> string list" where
  "classify_step policy reasons item =
     (let hard_reasons = fst reasons; soft_reasons = snd reasons;
          layer_name = fst item; layer_data = snd item
      in case layer_data of
           PDict dd \<Rightarrow>
             (let st = upper (py_str (dict_get_default dd ''status'' (PStr ''UNKNOWN'')));
                  layer_key = lower layer_name
              in if st \<in> hard_statuses policy then
                   (hard_reasons @ [layer_name @ '':'' @ st], soft_reasons)
                 else if st = ''DEGRADED'' then
                   (if layer_key \<in> hard_layers_on_degraded policy then
                      (hard_reasons @ [layer_name @ '':DEGRADED''], soft_reasons)
                    else (hard_reasons, soft_reasons @ [layer_name @ '':DEGRADED'']))
                 else if st \<in> soft_statuses policy then
                   (hard_reasons, soft_reasons @ [layer_name @ '':'' @ st])
                 else (hard_reasons, soft_reasons))
         | _ \<Rightarrow> (hard_reasons, soft_reasons))"

text \<open>\<open>_classify(report, rc, policy)\<close>: classification, action and reasons.\<close>

definition classify ::
  "json option \<Rightarrow> int \<Rightarrow> classification_policy \<Rightarrow> error + string \<times> string \<times> string list" where
  "classify report rc policy =
     (if rc = 0 then Inr (''PASS'', ''log_only'', [])
      else case report of
        None \<Rightarrow>
          (let cls = treat_missing_report_as policy
           in Inr (cls, action_of cls, [''missing_or_unparseable_run_report'']))
      | Some rep \<Rightarrow>
          (case failing_layers_from_report rep of
             Inl e \<Rightarrow> Inl e
           | Inr failing_layers \<Rightarrow>
               (case (case rep of PDict r \<Rightarrow> dict_get r ''layers'' | _ \<Rightarrow> None) of
                  Some (PDict layers) \<Rightarrow>
                    (let reasons = foldl (classify_step policy) ([], []) layers;
                         hard_reasons = fst reasons; soft_reasons = snd reasons
                     in if hard_reasons \<noteq> [] then Inr (''HARD_FAIL'', ''emit_alert'', hard_reasons)
                        else if \<not> (failing_layers = [] \<and> soft_reasons = []) then
                          Inr (''SOFT_FAIL'', ''retry'',
                               if soft_reasons \<noteq> [] then soft_reasons else failing_layers)
                        else Inr (''SOFT_FAIL'', ''retry'', [''nonzero_rc_without_failing_layers'']))
                | _ \<Rightarrow>
                    (let cls = treat_missing_layers_as policy
                     in Inr (cls, action_of cls, [''missing_layers_in_report''])))))"

section \<open>The loop controller (main of loop\_runner.py)\<close>

text \<open>
  The command line, as far as the loop reads it. The paths, the host name, the rating and
  the dashboard flag only reach the engine or the artifacts' names.
\<close>

record args =
  iterations :: int
  interval_seconds :: int
  max_retries :: int
  emit_alerts :: bool
  gated :: bool

text \<open>\<open>IterationOutcome\<close>, without the directory, the time stamp and the stability.\<close>

record iteration_outcome =
  iteration :: nat
  attempt :: nat
  rc :: int
  failing_layers :: "string list"
  classification :: string
  action :: string

text \<open>
  What the controller leaves behind: the outcomes (each is also one line of the summary
  log), the calls of \<open>ledger.append\<close> with layer, event type and payload, the alert
  files written, and the sleeps. The payloads are modelled without time stamps and paths.
\<close>

record ledger_call =
  call_layer :: string
  call_type :: string
  call_data :: "(string \<times> json) list"

record loop_state =
  outcomes :: "iteration_outcome list"
  ledger_calls :: "ledger_call list"
  alerts :: "(string \<times> json) list list"
  sleeps :: "int list"

definition ledger_append :: "string \<Rightarrow> string \<Rightarrow> (string \<times> json) list \<Rightarrow> loop_state \<Rightarrow> loop_state" where
  "ledger_append l t d s =
     s\<lparr>ledger_calls := ledger_calls s @ [\<lparr>call_layer = l, call_type = t, call_data = d\<rparr>]\<rparr>"

text \<open>
  The part of the loop body from \<open>outcomes.append(outcome)\<close> to the call that records the
  attempt in the ledger.
\<close>

definition record_attempt ::
  "nat \<Rightarrow> nat \<Rightarrow> int \<Rightarrow> string list \<Rightarrow> string \<Rightarrow> string \<Rightarrow> string list \<Rightarrow> loop_state \<Rightarrow> loop_state" where
  "record_attempt i n code failing cls act reasons s =
     ledger_append ''meta'' ''loop_iteration''
       [(''iteration'', PInt (int i)), (''attempt'', PInt (int n)), (''rc'', PInt code),
        (''failing_layers'', PList (map PStr failing)), (''classification'', PStr cls),
        (''action'', PStr act), (''reasons'', PList (map PStr reasons))]
       (s\<lparr>outcomes := outcomes s @
            [\<lparr>iteration = i, attempt = n, rc = code, failing_layers = failing,
              classification = cls, action = act\<rparr>]\<rparr>)"

text \<open>\<open>_write_alert\<close> followed by the \<open>loop_alert\<close> event.\<close>

definition emit_alert ::
  "string \<Rightarrow> nat \<Rightarrow> nat \<Rightarrow> int \<Rightarrow> string list \<Rightarrow> string list \<Rightarrow> bool \<Rightarrow> loop_state \<Rightarrow> loop_state" where
  "emit_alert kind i n code reasons failing present s =
     ledger_append ''meta'' ''loop_alert''
       [(''kind'', PStr kind), (''iteration'', PInt (int i)), (''attempt'', PInt (int n)),
        (''reasons'', PList (map PStr reasons)), (''failing_layers'', PList (map PStr failing))]
       (s\<lparr>alerts := alerts s @
            [[(''kind'', PStr kind), (''iteration'', PInt (int i)), (''attempt'', PInt (int n)),
              (''rc'', PInt code), (''reasons'', PList (map PStr reasons)),
              (''failing_layers'', PList (map PStr failing)),
              (''report_present'', PBool present)]]\<rparr>)"

text \<open>The sleep before a retry, \<open>min(5, max(1, args.interval_seconds or 1))\<close>.\<close>

definition retry_sleep :: "args \<Rightarrow> int" where
  "retry_sleep a = min 5 (max 1 (if interval_seconds a = 0 then 1 else interval_seconds a))"

text \<open>
  The \<open>while True\<close> loop of one iteration. \<open>engine i n\<close> is what \<open>run_engine_once\<close>
  returns at attempt \<open>n\<close> of iteration \<open>i\<close>: the return code of the engine's process and
  its parsed report. The argument \<open>attempt\<close> is the counter before the increment.
\<close>

function attempt_loop ::
  "args \<Rightarrow> classification_policy \<Rightarrow> (nat \<Rightarrow> nat \<Rightarrow> int \<times> json option) \<Rightarrow> nat \<Rightarrow> nat
     \<Rightarrow> loop_state \<Rightarrow> error + loop_state" where
  "attempt_loop a policy engine i attempt0 s =
     (let attempt = attempt0 + 1;
          rc = fst (engine i attempt);
          report = snd (engine i attempt)
      in case (case report of None \<Rightarrow> Inr [] | Some rep \<Rightarrow> failing_layers_from_report rep) of
           Inl e \<Rightarrow> Inl e
         | Inr failing \<Rightarrow>
        (case classify report rc policy of
           Inl e \<Rightarrow> Inl e
         | Inr c \<Rightarrow>
             (let classification = fst c; action = fst (snd c); reasons = snd (snd c);
                  s1 = record_attempt i attempt rc failing classification action reasons s
              in if rc = 0 then Inr s1
                 else if classification = ''HARD_FAIL'' then
                   Inr (if emit_alerts a
                        then emit_alert ''HARD_FAIL'' i attempt rc reasons failing
                               (report \<noteq> None) s1
                        else s1)
                 else if int attempt > max_retries a then
                   Inr (if emit_alerts a
                        then emit_alert ''SOFT_FAIL_EXHAUSTED'' i attempt rc reasons failing
                               (report \<noteq> None) s1
                        else s1)
                 else attempt_loop a policy engine i attempt
                        (s1\<lparr>sleeps := sleeps s1 @ [retry_sleep a]\<rparr>))))"
  by pat_completeness auto
termination
  by (relation "measure (\<lambda>(a, policy, engine, i, attempt0, s). nat (max_retries a) - attempt0)")
     auto

declare attempt_loop.simps [simp del]

text \<open>The \<open>for i in range(1, args.iterations + 1)\<close> loop, with the sleep between iterations.\<close>

fun iterations_loop ::
  "args \<Rightarrow> classification_policy \<Rightarrow> (nat \<Rightarrow> nat \<Rightarrow> int \<times> json option) \<Rightarrow> nat list
     \<Rightarrow> loop_state \<Rightarrow> error + loop_state" where
  "iterations_loop a policy engine [] s = Inr s"
| "iterations_loop a policy engine (i # rest) s =
     (case attempt_loop a policy engine i 0 s of
        Inl e \<Rightarrow> Inl e
      | Inr s1 \<Rightarrow>
          iterations_loop a policy engine rest
            (if int i < iterations a \<and> interval_seconds a > 0
             then s1\<lparr>sleeps := sleeps s1 @ [interval_seconds a]\<rparr> else s1))"

text \<open>
  \<open>main\<close>: the exit status and the state left behind, or the exception. The policy is
  loaded from what \<open>--policy\<close> leads to.
\<close>

definition main ::
  "args \<Rightarrow> policy_path \<Rightarrow> (nat \<Rightarrow> nat \<Rightarrow> int \<times> json option) \<Rightarrow> error + int \<times> loop_state" where
  "main a path engine =
     (if iterations a \<le> 0 then Inl (SystemExit ''--iterations must be >= 1'')
      else if interval_seconds a < 0 then Inl (SystemExit ''--interval-seconds must be >= 0'')
      else if max_retries a < 0 then Inl (SystemExit ''--max-retries must be >= 0'')
      else
        (let policy = load path;
             s0 = ledger_append ''meta'' ''loop_start''
                    [(''iterations'', PInt (iterations a)),
                     (''interval_seconds'', PInt (interval_seconds a)),
                     (''max_retries'', PInt (max_retries a)),
                     (''gated'', PBool (gated a)), (''emit_alerts'', PBool (emit_alerts a))]
                    \<lparr>outcomes = [], ledger_calls = [], alerts = [], sleeps = []\<rparr>
         in case iterations_loop a policy engine [1 ..< nat (iterations a) + 1] s0 of
              Inl e \<Rightarrow> Inl e
            | Inr s1 \<Rightarrow>
                (let s2 = ledger_append ''meta'' ''loop_end'' [] s1
                 in if gated a \<and> list_ex (\<lambda>outc. rc outc \<noteq> 0 \<and> attempt outc \<ge> 1) (outcomes s2)
                    then Inr (1, s2) else Inr (0, s2))))"

section \<open>Notions for the statements about the controller\<close>

text \<open>The invariant of a loaded policy.\<close>

definition policy_invariant :: "classification_policy \<Rightarrow> bool" where
  "policy_invariant p =
     (treat_missing_report_as p \<in> {''PASS'', ''SOFT_FAIL'', ''HARD_FAIL''}
      \<and> treat_missing_layers_as p \<in> {''PASS'', ''SOFT_FAIL'', ''HARD_FAIL''}
      \<and> hard_layers_on_degraded p \<noteq> {}
      \<and> hard_statuses p \<noteq> {}
      \<and> soft_statuses p \<noteq> {})"

text \<open>A list without a valid entry: every item is not a string, or a blank string.\<close>

definition no_valid_entry :: "json list \<Rightarrow> bool" where
  "no_valid_entry xs = list_all (\<lambda>x. case x of PStr s \<Rightarrow> strip s = [] | _ \<Rightarrow> True) xs"




text \<open>
  A report with the given status for each layer, and an engine whose layer \<open>physical\<close> is
  DEGRADED (return code 1, as the gated engine gives) before attempt \<open>k\<close> and STABLE
  (return code 0) from attempt \<open>k\<close> on.
\<close>

definition report_of :: "(string \<times> string) list \<Rightarrow> json" where
  "report_of ls =
     PDict [(''layers'', PDict (map (\<lambda>l. (fst l, PDict [(''status'', PStr (snd l))])) ls))]"

definition flaky_engine :: "nat \<Rightarrow> nat \<Rightarrow> nat \<Rightarrow> int \<times> json option" where
  "flaky_engine k i n =
     (if n < k then (1, Some (report_of [(''physical'', ''DEGRADED'')]))
      else (0, Some (report_of [(''physical'', ''STABLE'')])))"


section \<open>Canonical JSON and the digest (ledger.py)\<close>

text \<open>
  \<open>json.dumps(obj, sort_keys=True, separators=(",", ":"), ensure_ascii=False)\<close> on values
  whose dictionary keys are strings or integers. \<open>sorted(dct.items())\<close> compares the keys
  as they are in memory, before they are turned into text, and raises \<open>TypeError\<close> when it
  has to compare a string with an integer.
\<close>

fun is_KStr :: "pykey \<Rightarrow> bool" where
  "is_KStr (KStr s) = True"
| "is_KStr (KInt i) = False"

fun key_str :: "pykey \<Rightarrow> string" where
  "key_str (KStr s) = s"
| "key_str (KInt i) = []"

fun key_int :: "pykey \<Rightarrow> int" where
  "key_int (KInt i) = i"
| "key_int (KStr s) = 0"

definition keys_comparable :: "(pykey \<times> 'v) list \<Rightarrow> bool" where
  "keys_comparable kvs =
     (list_all (\<lambda>kv. is_KStr (fst kv)) kvs \<or> list_all (\<lambda>kv. \<not> is_KStr (fst kv)) kvs)"

definition sort_items :: "(pykey \<times> 'v) list \<Rightarrow> (pykey \<times> 'v) list" where
  "sort_items kvs =
     (if list_all (\<lambda>kv. is_KStr (fst kv)) kvs then sort_key (\<lambda>kv. key_str (fst kv)) kvs
      else sort_key (\<lambda>kv. key_int (fst kv)) kvs)"

text \<open>The text of a key: a string as it is, an integer in decimal.\<close>

fun json_key_text :: "pykey \<Rightarrow> string" where
  "json_key_text (KStr s) = s"
| "json_key_text (KInt i) = show_int i"

text \<open>
  A string literal: the quote, the backslash and the control characters below 0x20 are
  escaped, nothing else (\<open>ensure_ascii=False\<close>).
\<close>

definition json_escape_char :: "char \<Rightarrow> string" where
  "json_escape_char c =
     (let n = (of_char c :: nat) in
      if c = CHR 0x22 then [CHR 0x5C, CHR 0x22]
      else if c = CHR 0x5C then [CHR 0x5C, CHR 0x5C]
      else if c = CHR 0x08 then [CHR 0x5C, CHR ''b'']
      else if c = CHR 0x0C then [CHR 0x5C, CHR ''f'']
      else if c = CHR 0x0A then [CHR 0x5C, CHR ''n'']
      else if c = CHR 0x0D then [CHR 0x5C, CHR ''r'']
      else if c = CHR 0x09 then [CHR 0x5C, CHR ''t'']
      else if n < 32 then
        [CHR 0x5C, CHR ''u'', CHR ''0'', CHR ''0'', digit_char (n div 16), digit_char (n mod 16)]
      else [c])"

definition json_quote :: "string \<Rightarrow> string" where
  "json_quote s = [CHR 0x22] @ concat (map json_escape_char s) @ [CHR 0x22]"

definition float_text :: "string \<Rightarrow> string" where
  "float_text r =
     (if r = ''nan'' then ''NaN'' else if r = ''inf'' then ''Infinity''
      else if r = ''-inf'' then ''-Infinity'' else r)"

definition render_item :: "pykey \<times> string \<Rightarrow> string" where
  "render_item kt = json_quote (json_key_text (fst kt)) @ '':'' @ snd kt"

fun canonical_text :: "pykey pyval \<Rightarrow> string" where
  "canonical_text PNone = ''null''"
| "canonical_text (PBool b) = (if b then ''true'' else ''false'')"
| "canonical_text (PInt i) = show_int i"
| "canonical_text (PFloat r) = float_text r"
| "canonical_text (PStr s) = json_quote s"
| "canonical_text (PList xs) = ''['' @ join '','' (map canonical_text xs) @ '']''"
| "canonical_text (PDict kvs) =
     ''{'' @ join '','' (map render_item (sort_items (map (\<lambda>(k, v). (k, canonical_text v)) kvs)))
       @ ''}''"

fun sortable :: "pykey pyval \<Rightarrow> bool" where
  "sortable (PList xs) = list_all sortable xs"
| "sortable (PDict kvs) = (keys_comparable kvs \<and> list_all (\<lambda>(k, v). sortable v) kvs)"
| "sortable v = True"

text \<open>\<open>_canonical_json(obj)\<close>.\<close>

definition canonical_json :: "pykey pyval \<Rightarrow> error + string" where
  "canonical_json obj = (if sortable obj then Inr (canonical_text obj) else Inl TypeError)"

text \<open>
  What \<open>json.loads\<close> returns on the text of \<open>_canonical_json(obj)\<close>: the keys have become
  their texts, each dictionary lists its items in the order of the text, and of two items
  with the same key text the later value stays, at the place of the earlier.
\<close>

fun dict_set :: "('k \<times> 'v) list \<Rightarrow> 'k \<Rightarrow> 'v \<Rightarrow> ('k \<times> 'v) list" where
  "dict_set [] key v = [(key, v)]"
| "dict_set (kv # d) key v = (if fst kv = key then (key, v) # d else kv # dict_set d key v)"

definition dict_of_pairs :: "('k \<times> 'v) list \<Rightarrow> ('k \<times> 'v) list" where
  "dict_of_pairs ps = foldl (\<lambda>d kv. dict_set d (fst kv) (snd kv)) [] ps"

fun json_roundtrip :: "pykey pyval \<Rightarrow> json" where
  "json_roundtrip PNone = PNone"
| "json_roundtrip (PBool b) = PBool b"
| "json_roundtrip (PInt i) = PInt i"
| "json_roundtrip (PFloat r) = PFloat r"
| "json_roundtrip (PStr s) = PStr s"
| "json_roundtrip (PList xs) = PList (map json_roundtrip xs)"
| "json_roundtrip (PDict kvs) =
     PDict (dict_of_pairs
       (map (\<lambda>kv. (json_key_text (fst kv), snd kv))
          (sort_items (map (\<lambda>(k, v). (k, json_roundtrip v)) kvs))))"

text \<open>A parsed value as a Python value: all its keys are strings.\<close>

definition py_of_json :: "json \<Rightarrow> pykey pyval" where
  "py_of_json v = map_pyval KStr v"

section \<open>The ledger (ledger.py)\<close>

record ledger_entry =
  ts_utc :: string
  ts_unix :: string
  layer :: string
  event_type :: string
  data :: "(pykey \<times> pykey pyval) list"
  engine_version :: string
  previous_hash :: string
  layer_previous_hash :: string
  proof_str :: "string option"
  hash :: "string option"

text \<open>\<open>LedgerEntry.to_dict\<close>; the field \<open>proof\<close> is \<open>proof_str\<close> here.\<close>

definition to_dict :: "ledger_entry \<Rightarrow> (pykey \<times> pykey pyval) list" where
  "to_dict e =
     [(KStr ''ts_utc'', PStr (ts_utc e)),
      (KStr ''ts_unix'', PFloat (ts_unix e)),
      (KStr ''layer'', PStr (layer e)),
      (KStr ''type'', PStr (event_type e)),
      (KStr ''data'', PDict (data e)),
      (KStr ''engine_version'', PStr (engine_version e)),
      (KStr ''previous_hash'', PStr (previous_hash e)),
      (KStr ''layer_previous_hash'', PStr (layer_previous_hash e))]
     @ (case proof_str e of None \<Rightarrow> [] | Some p \<Rightarrow> [(KStr ''proof'', PStr p)])
     @ (case hash e of None \<Rightarrow> [] | Some h \<Rightarrow> [(KStr ''hash'', PStr h)])"

text \<open>
  \<open>LedgerEntry.compute_hash\<close>. The digest \<open>_sha256_text\<close> is a parameter of the model: any
  function from texts to texts.
\<close>

definition compute_hash :: "(string \<Rightarrow> string) \<Rightarrow> ledger_entry \<Rightarrow> error + string" where
  "compute_hash sha256_text e =
     (case canonical_json (PDict (dict_pop (to_dict e) (KStr ''hash''))) of
        Inl err \<Rightarrow> Inl err
      | Inr text \<Rightarrow> Inr (sha256_text text))"

text \<open>
  The ledger file is read line by line, and each line is stripped and parsed. A line of
  the file is modelled by what that gives: blank, not JSON, or the parsed value. The
  file's content is a list of lines, each ended by a newline; there is no file at the path
  when it is \<open>None\<close>. The line that \<open>append\<close> writes for a dictionary \<open>d\<close> parses to
  \<open>json_roundtrip (PDict d)\<close>.
\<close>

datatype line = Blank | Invalid | Parsed json

record universal_ledger =
  ledger_file :: "line list option"
  version :: string
  last_global_hash :: string
  last_layer_hash :: "(string \<times> string) list"

text \<open>
  The loop at the start of \<open>append\<close> that reads the chain heads from the file. The state is
  \<open>prev_global\<close> and \<open>prev_layer\<close>. \<open>obj.get\<close> on a parsed value that is not a dictionary
  raises \<open>AttributeError\<close>.
\<close>

fun index_lines ::
  "line list \<Rightarrow> string \<times> (string \<times> string) list \<Rightarrow> error + string \<times> (string \<times> string) list" where
  "index_lines [] st = Inr st"
| "index_lines (Blank # rest) st = index_lines rest st"
| "index_lines (Invalid # rest) st = index_lines rest st"
| "index_lines (Parsed obj # rest) st =
     (case obj of
        PDict d \<Rightarrow>
          (case (dict_get d ''hash'', dict_get d ''layer'') of
             (Some (PStr h), Some (PStr lyr)) \<Rightarrow> index_lines rest (h, dict_set (snd st) lyr h)
           | _ \<Rightarrow> index_lines rest st)
      | _ \<Rightarrow> Inl AttributeError)"

text \<open>
  \<open>UniversalLedger.append(layer, event_type, data, proof)\<close>. The arguments are Python
  values, as the checks at the start of the function test their types. \<open>now\<close> is the
  reading of the clock: the texts of \<open>utc_iso()\<close> and of \<open>time.time()\<close>. Opening the
  file with mode \<open>a+\<close> creates it when it is missing. The result is the new entry's hash
  and the ledger after the call.
\<close>

definition append ::
  "(string \<Rightarrow> string) \<Rightarrow> universal_ledger \<Rightarrow> string \<times> string \<Rightarrow> pykey pyval \<Rightarrow> pykey pyval
     \<Rightarrow> pykey pyval \<Rightarrow> string option \<Rightarrow> error + string \<times> universal_ledger" where
  "append sha256_text led now layer_arg event_type_arg data_arg proof_arg =
     (case layer_arg of
        PStr lyr \<Rightarrow>
          (if lyr = [] then Inl (ValueError ''layer must be a non-empty string'')
           else case event_type_arg of
             PStr et \<Rightarrow>
               (if et = [] then Inl (ValueError ''event_type must be a non-empty string'')
                else case data_arg of
                  PDict d \<Rightarrow>
                    (let lines = (case ledger_file led of None \<Rightarrow> [] | Some ls \<Rightarrow> ls)
                     in case index_lines lines ([], []) of
                          Inl err \<Rightarrow> Inl err
                        | Inr st \<Rightarrow>
                            (let prev_global = fst st; prev_layer = snd st;
                                 entry = \<lparr>ts_utc = fst now, ts_unix = snd now, layer = lyr,
                                          event_type = et, data = d,
                                          engine_version = version led,
                                          previous_hash = prev_global,
                                          layer_previous_hash = dict_get_default prev_layer lyr [],
                                          proof_str = proof_arg, hash = None\<rparr>
                             in case compute_hash sha256_text entry of
                                  Inl err \<Rightarrow> Inl err
                                | Inr h \<Rightarrow>
                                    Inr (h, led\<lparr>ledger_file :=
                                               Some (lines @ [Parsed (json_roundtrip
                                                 (PDict (to_dict (entry\<lparr>hash := Some h\<rparr>))))]),
                                             last_global_hash := h,
                                             last_layer_hash :=
                                               dict_set (last_layer_hash led) lyr h\<rparr>)))
                | _ \<Rightarrow> Inl (ValueError ''data must be a dict''))
           | _ \<Rightarrow> Inl (ValueError ''event_type must be a non-empty string''))
      | _ \<Rightarrow> Inl (ValueError ''layer must be a non-empty string''))"

text \<open>
  \<open>UniversalLedger.verify()\<close>: the state of its loop, the loop over the lines numbered
  from \<open>idx\<close>, and the report (without the path and the time stamp).
\<close>

record verify_state =
  v_ok :: bool
  v_reasons :: "string list"
  v_total :: nat
  v_prev_global :: string
  v_prev_layer :: "(string \<times> string) list"

definition line_reason :: "nat \<Rightarrow> string \<Rightarrow> string" where
  "line_reason idx what = ''line '' @ show_nat idx @ '': '' @ what"

definition flag :: "nat \<Rightarrow> string \<Rightarrow> verify_state \<Rightarrow> verify_state" where
  "flag idx what st = st\<lparr>v_ok := False, v_reasons := v_reasons st @ [line_reason idx what]\<rparr>"

fun verify_lines ::
  "(string \<Rightarrow> string) \<Rightarrow> nat \<Rightarrow> line list \<Rightarrow> verify_state \<Rightarrow> error + verify_state" where
  "verify_lines sha256_text idx [] st = Inr st"
| "verify_lines sha256_text idx (Blank # rest) st = verify_lines sha256_text (idx + 1) rest st"
| "verify_lines sha256_text idx (Invalid # rest) st =
     verify_lines sha256_text (idx + 1) rest
       (flag idx ''invalid json'' (st\<lparr>v_total := v_total st + 1\<rparr>))"
| "verify_lines sha256_text idx (Parsed obj # rest) st =
     (let st1 = st\<lparr>v_total := v_total st + 1\<rparr> in
      case obj of
        PDict d \<Rightarrow>
          (case (dict_get d ''hash'', dict_get d ''layer'') of
             (Some (PStr h), Some (PStr lyr)) \<Rightarrow>
               (case canonical_json (py_of_json (PDict (dict_pop d ''hash''))) of
                  Inl err \<Rightarrow> Inl err
                | Inr text \<Rightarrow>
                    (let computed = sha256_text text;
                         st2 = (if computed \<noteq> h then flag idx ''hash mismatch'' st1 else st1);
                         st3 = (if dict_get_default d ''previous_hash'' (PStr [])
                                     \<noteq> PStr (v_prev_global st2)
                                then flag idx ''global previous_hash mismatch'' st2 else st2);
                         st4 = st3\<lparr>v_prev_global := h\<rparr>;
                         expected_layer_prev = dict_get_default (v_prev_layer st4) lyr [];
                         st5 = (if dict_get_default d ''layer_previous_hash'' (PStr [])
                                     \<noteq> PStr expected_layer_prev
                                then flag idx ''layer_previous_hash mismatch'' st4 else st4)
                     in verify_lines sha256_text (idx + 1) rest
                          (st5\<lparr>v_prev_layer := dict_set (v_prev_layer st5) lyr h\<rparr>)))
           | _ \<Rightarrow> verify_lines sha256_text (idx + 1) rest (flag idx ''missing hash/layer'' st1))
      | _ \<Rightarrow> Inl AttributeError)"

record verify_report =
  ok :: bool
  total_entries :: nat
  reasons :: "string list"

definition verify :: "(string \<Rightarrow> string) \<Rightarrow> universal_ledger \<Rightarrow> error + verify_report" where
  "verify sha256_text led =
     (case ledger_file led of
        None \<Rightarrow> Inl FileNotFoundError
      | Some lines \<Rightarrow>
          (case verify_lines sha256_text 1 lines
                  \<lparr>v_ok = True, v_reasons = [], v_total = 0, v_prev_global = [],
                   v_prev_layer = []\<rparr> of
             Inl err \<Rightarrow> Inl err
           | Inr st \<Rightarrow>
               Inr \<lparr>ok = v_ok st, total_entries = v_total st, reasons = v_reasons st\<rparr>))"

text \<open>
  The constructor: \<open>_index_existing\<close> fills the cache of the chain heads from the file,
  when there is one. It takes the hash of every object with a string hash, and the layer
  head when the layer is a string too.
\<close>

fun index_existing ::
  "line list \<Rightarrow> string \<times> (string \<times> string) list \<Rightarrow> error + string \<times> (string \<times> string) list" where
  "index_existing [] st = Inr st"
| "index_existing (Blank # rest) st = index_existing rest st"
| "index_existing (Invalid # rest) st = index_existing rest st"
| "index_existing (Parsed entry # rest) st =
     (case entry of
        PDict d \<Rightarrow>
          (case dict_get d ''hash'' of
             Some (PStr h) \<Rightarrow>
               (case dict_get d ''layer'' of
                  Some (PStr lyr) \<Rightarrow> index_existing rest (h, dict_set (snd st) lyr h)
                | _ \<Rightarrow> index_existing rest (h, snd st))
           | _ \<Rightarrow> index_existing rest st)
      | _ \<Rightarrow> Inl AttributeError)"

definition new_ledger :: "line list option \<Rightarrow> string \<Rightarrow> error + universal_ledger" where
  "new_ledger file engine_version_arg =
     (case index_existing (case file of None \<Rightarrow> [] | Some ls \<Rightarrow> ls) ([], []) of
        Inl err \<Rightarrow> Inl err
      | Inr st \<Rightarrow>
          Inr \<lparr>ledger_file = file, version = engine_version_arg,
               last_global_hash = fst st, last_layer_hash = snd st\<rparr>)"

text \<open>\<open>UniversalLedger.tail(n)\<close>: the last \<open>n\<close> parsed entries.\<close>

definition iter_entries :: "line list option \<Rightarrow> json list" where
  "iter_entries file =
     concat (map (\<lambda>l. case l of Parsed v \<Rightarrow> [v] | _ \<Rightarrow> [])
                 (case file of None \<Rightarrow> [] | Some ls \<Rightarrow> ls))"

definition tail :: "universal_ledger \<Rightarrow> int \<Rightarrow> json list" where
  "tail led n =
     (if n \<le> 0 then []
      else let entries = iter_entries (ledger_file led)
           in drop (length entries - nat n) entries)"

section \<open>Notions for the statements about the ledger\<close>

text \<open>
  An entry of the file is a line that parses to an object with a string hash and a string
  layer: these are the lines that \<open>append\<close> and \<open>verify\<close> chain. \<open>entry_of\<close> gives the
  hash and the layer of such a line.
\<close>

definition entry_of :: "line \<Rightarrow> (string \<times> string) option" where
  "entry_of ln =
     (case ln of
        Parsed (PDict d) \<Rightarrow>
          (case (dict_get d ''hash'', dict_get d ''layer'') of
             (Some (PStr h), Some (PStr lyr)) \<Rightarrow> Some (h, lyr)
           | _ \<Rightarrow> None)
      | _ \<Rightarrow> None)"

definition entries :: "line list \<Rightarrow> (string \<times> string) list" where
  "entries lines = List.map_filter entry_of lines"

text \<open>
  The hash of the most recent entry of the file, and of the most recent entry of a layer;
  the empty string when there is none.
\<close>

definition last_hash :: "(string \<times> string) list \<Rightarrow> string" where
  "last_hash es = (if es = [] then [] else fst (last es))"

definition head_global :: "line list \<Rightarrow> string" where
  "head_global lines = last_hash (entries lines)"

definition head_layer :: "string \<Rightarrow> line list \<Rightarrow> string" where
  "head_layer lyr lines = last_hash (filter (\<lambda>e. snd e = lyr) (entries lines))"

text \<open>A file without a line that parses to something other than an object.\<close>

definition is_object_line :: "line \<Rightarrow> bool" where
  "is_object_line ln = (case ln of Parsed (PDict d) \<Rightarrow> True | Parsed v \<Rightarrow> False | _ \<Rightarrow> True)"

definition readable :: "line list \<Rightarrow> bool" where
  "readable lines = list_all is_object_line lines"

text \<open>The lines of the ledger's file; none when the file is missing.\<close>

definition file_lines :: "universal_ledger \<Rightarrow> line list" where
  "file_lines led = (case ledger_file led of None \<Rightarrow> [] | Some ls \<Rightarrow> ls)"

text \<open>The digest that \<open>verify\<close> computes for a parsed object.\<close>

definition object_digest :: "(string \<Rightarrow> string) \<Rightarrow> (string \<times> json) list \<Rightarrow> string" where
  "object_digest sha256_text d =
     sha256_text (canonical_text (py_of_json (PDict (dict_pop d ''hash''))))"

text \<open>
  What \<open>verify\<close> has to report for a line, given the chain heads of the lines before it.
\<close>

definition line_reasons ::
  "(string \<Rightarrow> string) \<Rightarrow> nat \<Rightarrow> string \<Rightarrow> (string \<Rightarrow> string) \<Rightarrow> line \<Rightarrow> string list" where
  "line_reasons sha256_text idx global_head layer_head ln =
     (case ln of
        Blank \<Rightarrow> []
      | Invalid \<Rightarrow> [line_reason idx ''invalid json'']
      | Parsed v \<Rightarrow>
          (case v of
             PDict d \<Rightarrow>
               (case entry_of ln of
                  None \<Rightarrow> [line_reason idx ''missing hash/layer'']
                | Some e \<Rightarrow>
                    (if object_digest sha256_text d \<noteq> fst e
                     then [line_reason idx ''hash mismatch''] else [])
                    @ (if dict_get_default d ''previous_hash'' (PStr []) \<noteq> PStr global_head
                       then [line_reason idx ''global previous_hash mismatch''] else [])
                    @ (if dict_get_default d ''layer_previous_hash'' (PStr [])
                            \<noteq> PStr (layer_head (snd e))
                       then [line_reason idx ''layer_previous_hash mismatch''] else []))
           | _ \<Rightarrow> []))"

text \<open>The reasons for line \<open>i\<close> (counted from 0) of a file, which has the number \<open>i + 1\<close>.\<close>

definition reasons_at :: "(string \<Rightarrow> string) \<Rightarrow> line list \<Rightarrow> nat \<Rightarrow> string list" where
  "reasons_at sha256_text lines i =
     line_reasons sha256_text (i + 1) (head_global (take i lines))
       (\<lambda>lyr. head_layer lyr (take i lines)) (lines ! i)"

text \<open>A stand-in digest without collisions, to evaluate examples: the text itself.\<close>

definition plain_digest :: "string \<Rightarrow> string" where
  "plain_digest t = t"

definition no_ledger_file :: universal_ledger where
  "no_ledger_file =
     \<lparr>ledger_file = None, version = ''recursion-v1'', last_global_hash = [],
      last_layer_hash = []\<rparr>"

text \<open>
  The chain heads after some entries, from the heads before them: the hash of the last
  entry, and for each layer the hash of its last entry.
\<close>

definition chain_step ::
  "string \<times> (string \<times> string) list \<Rightarrow> string \<times> string \<Rightarrow> string \<times> (string \<times> string) list" where
  "chain_step st e = (fst e, dict_set (snd st) (snd e) (fst e))"

definition chain_state ::
  "string \<times> (string \<times> string) list \<Rightarrow> (string \<times> string) list
     \<Rightarrow> string \<times> (string \<times> string) list" where
  "chain_state st es = foldl chain_step st es"

fun all_reasons ::
  "(string \<Rightarrow> string) \<Rightarrow> nat \<Rightarrow> string \<times> (string \<times> string) list \<Rightarrow> line list \<Rightarrow> string list" where
  "all_reasons sha256_text idx st [] = []"
| "all_reasons sha256_text idx st (ln # rest) =
     line_reasons sha256_text idx (fst st) (\<lambda>lyr. dict_get_default (snd st) lyr []) ln
     @ all_reasons sha256_text (idx + 1)
         (case entry_of ln of None \<Rightarrow> st | Some e \<Rightarrow> chain_step st e) rest"



text \<open>
  A payload as the callers in the repository build it: every dictionary in it has string
  keys, no key twice.
\<close>

fun json_like :: "pykey pyval \<Rightarrow> bool" where
  "json_like (PList xs) = list_all json_like xs"
| "json_like (PDict kvs) =
     (list_all (\<lambda>kv. is_KStr (fst kv)) kvs \<and> distinct (map fst kvs)
      \<and> list_all (\<lambda>(k, v). json_like v) kvs)"
| "json_like v = True"

text \<open>
  A sequence of calls of \<open>append\<close>, each with the clock's reading, a layer, an event type,
  a payload and a proof. The first call that raises ends the sequence.
\<close>

type_synonym append_call =
  "(string \<times> string) \<times> string \<times> string \<times> (pykey \<times> pykey pyval) list \<times> string option"

fun append_all ::
  "(string \<Rightarrow> string) \<Rightarrow> universal_ledger \<Rightarrow> append_call list \<Rightarrow> error + universal_ledger" where
  "append_all sha256_text led [] = Inr led"
| "append_all sha256_text led ((now, lyr, et, d, pr) # calls) =
     (case append sha256_text led now (PStr lyr) (PStr et) (PDict d) pr of
        Inl err \<Rightarrow> Inl err
      | Inr r \<Rightarrow> append_all sha256_text (snd r) calls)"

definition valid_call :: "append_call \<Rightarrow> bool" where
  "valid_call c =
     (case c of (now, lyr, et, d, pr) \<Rightarrow> lyr \<noteq> [] \<and> et \<noteq> [] \<and> json_like (PDict d))"

section \<open>Properties of the score\<close>

lemma foldl_score_step_shift:
  "foldl score_step a xs = a + foldl score_step 0 xs"
proof (induction xs arbitrary: a)
  case Nil
  show ?case by simp
next
  case (Cons x xs)
  have "foldl score_step a (x # xs) = foldl score_step (score_step a x) xs" by simp
  also have "\<dots> = score_step a x + foldl score_step 0 xs" by (rule Cons.IH)
  also have "score_step a x = a + score_step 0 x" by (simp add: score_step_def Let_def)
  also have "a + score_step 0 x + foldl score_step 0 xs = a + foldl score_step (score_step 0 x) xs"
    using Cons.IH [of "score_step 0 x"] by simp
  finally show ?case by simp
qed

lemma foldl_score_step_count:
  "foldl score_step 0 xs =
     10 * int (count_status ''DEGRADED'' xs) + 5 * int (count_status ''WARNING'' xs)
       + 15 * int (count_status ''OVERLOADED'' xs)"
proof (induction xs)
  case Nil
  show ?case by (simp add: count_status_def)
next
  case (Cons x xs)
  have step: "foldl score_step 0 (x # xs) = score_step 0 x + foldl score_step 0 xs"
    using foldl_score_step_shift [of "score_step 0 x" xs] by simp
  have head: "score_step 0 x =
     10 * int (count_status ''DEGRADED'' [x]) + 5 * int (count_status ''WARNING'' [x])
       + 15 * int (count_status ''OVERLOADED'' [x])"
    by (simp add: score_step_def count_status_def Let_def)
  have split: "count_status s (x # xs) = count_status s [x] + count_status s xs" for s
    by (simp add: count_status_def)
  show ?case
    unfolding step head Cons.IH split by simp
qed

lemma count_status_mset:
  "mset ys = mset xs \<Longrightarrow> count_status s ys = count_status s xs"
proof -
  assume "mset ys = mset xs"
  then have "mset (filter (\<lambda>item. status (snd item) = s) ys)
      = mset (filter (\<lambda>item. status (snd item) = s) xs)"
    by simp
  then show ?thesis
    unfolding count_status_def by (rule mset_eq_length)
qed

lemma count_status_none:
  "\<forall>item \<in> set xs. status (snd item) \<noteq> s \<Longrightarrow> count_status s xs = 0"
  by (simp add: count_status_def)

text \<open>
  C4. \<open>compute_sovereign_score\<close> returns total capability 100, a dangerous freedom of 10
  per DEGRADED layer plus 5 per WARNING layer plus 15 per OVERLOADED layer and nothing for
  any other status, and stability 100 minus the dangerous freedom, which is not clamped
  (seven OVERLOADED layers give -5). The result does not depend on the order in which the
  map lists its layers. An all-STABLE report gives 100, 0, 100; one DEGRADED and one WARNING
  layer (and no OVERLOADED one) give dangerous freedom 15 and stability 85.
\<close>

theorem compute_sovereign_score_spec:
  "total_capability (compute_sovereign_score xs) = 100
   \<and> dangerous_freedom (compute_sovereign_score xs) =
       10 * int (count_status ''DEGRADED'' xs) + 5 * int (count_status ''WARNING'' xs)
         + 15 * int (count_status ''OVERLOADED'' xs)
   \<and> stability (compute_sovereign_score xs) = 100 - dangerous_freedom (compute_sovereign_score xs)
   \<and> (mset ys = mset xs \<longrightarrow> compute_sovereign_score ys = compute_sovereign_score xs)
   \<and> ((\<forall>item \<in> set xs. status (snd item) = ''STABLE'') \<longrightarrow>
        compute_sovereign_score xs = \<lparr>total_capability = 100, dangerous_freedom = 0, stability = 100\<rparr>)
   \<and> (count_status ''DEGRADED'' xs = 1 \<and> count_status ''WARNING'' xs = 1
        \<and> count_status ''OVERLOADED'' xs = 0 \<longrightarrow>
        dangerous_freedom (compute_sovereign_score xs) = 15
        \<and> stability (compute_sovereign_score xs) = 85)
   \<and> stability (compute_sovereign_score
        (map (\<lambda>n. layer_with_status n ''OVERLOADED'') [''a'', ''b'', ''c'', ''d'', ''e'', ''f'', ''g''])) = - 5"
proof -
  have df: "dangerous_freedom (compute_sovereign_score zs) =
       10 * int (count_status ''DEGRADED'' zs) + 5 * int (count_status ''WARNING'' zs)
         + 15 * int (count_status ''OVERLOADED'' zs)" for zs
    by (simp add: compute_sovereign_score_def Let_def foldl_score_step_count)
  have tc: "total_capability (compute_sovereign_score zs) = 100" for zs
    by (simp add: compute_sovereign_score_def Let_def)
  have st: "stability (compute_sovereign_score zs) = 100 - dangerous_freedom (compute_sovereign_score zs)"
    for zs
    by (simp add: compute_sovereign_score_def Let_def)
  have perm: "compute_sovereign_score ys = compute_sovereign_score xs" if "mset ys = mset xs"
  proof -
    have "foldl score_step 0 ys = foldl score_step 0 xs"
      by (simp add: foldl_score_step_count count_status_mset [OF that])
    then show ?thesis by (simp add: compute_sovereign_score_def)
  qed
  have stable: "compute_sovereign_score xs
        = \<lparr>total_capability = 100, dangerous_freedom = 0, stability = 100\<rparr>"
    if "\<forall>item \<in> set xs. status (snd item) = ''STABLE''"
  proof -
    have "count_status ''DEGRADED'' xs = 0" "count_status ''WARNING'' xs = 0"
      "count_status ''OVERLOADED'' xs = 0"
      using that by (auto intro!: count_status_none)
    then have "foldl score_step 0 xs = 0" by (simp add: foldl_score_step_count)
    then show ?thesis by (simp add: compute_sovereign_score_def)
  qed
  have seven: "stability (compute_sovereign_score
        (map (\<lambda>n. layer_with_status n ''OVERLOADED'') [''a'', ''b'', ''c'', ''d'', ''e'', ''f'', ''g''])) = - 5"
    by (simp add: st df count_status_def layer_with_status_def)
  show ?thesis
    using df [of xs] tc [of xs] st [of xs] perm stable seven by simp
qed

theorem compute_sovereign_score_spec_witness:
  "mset [layer_with_status ''digital'' ''WARNING'', layer_with_status ''physical'' ''DEGRADED'']
     = mset [layer_with_status ''physical'' ''DEGRADED'', layer_with_status ''digital'' ''WARNING'']
   \<and> compute_sovereign_score [layer_with_status ''digital'' ''WARNING'', layer_with_status ''physical'' ''DEGRADED'']
     = compute_sovereign_score [layer_with_status ''physical'' ''DEGRADED'', layer_with_status ''digital'' ''WARNING'']
   \<and> count_status ''DEGRADED'' [layer_with_status ''physical'' ''DEGRADED'', layer_with_status ''digital'' ''WARNING''] = 1
   \<and> count_status ''WARNING'' [layer_with_status ''physical'' ''DEGRADED'', layer_with_status ''digital'' ''WARNING''] = 1
   \<and> count_status ''OVERLOADED'' [layer_with_status ''physical'' ''DEGRADED'', layer_with_status ''digital'' ''WARNING''] = 0
   \<and> compute_sovereign_score [layer_with_status ''physical'' ''DEGRADED'', layer_with_status ''digital'' ''WARNING'']
     = \<lparr>total_capability = 100, dangerous_freedom = 15, stability = 85\<rparr>
   \<and> map (\<lambda>item. status (snd item)) [layer_with_status ''physical'' ''STABLE'', layer_with_status ''codex'' ''STABLE'']
     = [''STABLE'', ''STABLE'']
   \<and> compute_sovereign_score [layer_with_status ''physical'' ''STABLE'', layer_with_status ''codex'' ''STABLE'']
     = \<lparr>total_capability = 100, dangerous_freedom = 0, stability = 100\<rparr>"
proof -
  let ?xs = "[layer_with_status ''physical'' ''DEGRADED'', layer_with_status ''digital'' ''WARNING'']"
  let ?ys = "[layer_with_status ''digital'' ''WARNING'', layer_with_status ''physical'' ''DEGRADED'']"
  let ?zs = "[layer_with_status ''physical'' ''STABLE'', layer_with_status ''codex'' ''STABLE'']"
  have m: "mset ?ys = mset ?xs" by (simp add: add.commute)
  have c: "count_status ''DEGRADED'' ?xs = 1 \<and> count_status ''WARNING'' ?xs = 1
      \<and> count_status ''OVERLOADED'' ?xs = 0"
    by (simp add: count_status_def layer_with_status_def)
  have s: "\<forall>item \<in> set ?zs. status (snd item) = ''STABLE''" by (simp add: layer_with_status_def)
  from compute_sovereign_score_spec [of ?xs ?ys] m c
  have "compute_sovereign_score ?ys = compute_sovereign_score ?xs"
    and "dangerous_freedom (compute_sovereign_score ?xs) = 15"
    and "stability (compute_sovereign_score ?xs) = 85"
    and "total_capability (compute_sovereign_score ?xs) = 100"
    by simp_all
  moreover from compute_sovereign_score_spec [of ?zs ?zs] s
  have "compute_sovereign_score ?zs = \<lparr>total_capability = 100, dangerous_freedom = 0, stability = 100\<rparr>"
    by blast
  moreover have "map (\<lambda>item. status (snd item)) ?zs = [''STABLE'', ''STABLE'']"
    by (simp add: layer_with_status_def)
  ultimately show ?thesis using m c by simp
qed

text \<open>
  C5. \<open>check_cognitive\<close> never raises: it is a total function. A rating of 3 gives
  STRAINED, of 4 or 5 STABLE, of 1 or 2 OVERLOADED, and no rating gives UNKNOWN with the
  note "no rating provided". Outside the range from 1 to 5 the result is not UNKNOWN:
  a rating of 0 gives OVERLOADED and a rating of 6 gives STABLE, and the branch with the
  note "rating out of range" is never taken.
\<close>

theorem check_cognitive_out_of_range:
  "check_cognitive (Some 0)
     = \<lparr>status = ''OVERLOADED'', issues = [''self-rating low''], details = [(''rating'', PInt 0)]\<rparr>
   \<and> check_cognitive (Some 6)
     = \<lparr>status = ''STABLE'', issues = [], details = [(''rating'', PInt 6)]\<rparr>
   \<and> (\<forall>r. issues (check_cognitive (Some r)) \<noteq> [''rating out of range''])"
  by (simp add: check_cognitive_def Let_def)

lemma check_cognitive_in_range:
  "check_cognitive None = \<lparr>status = ''UNKNOWN'', issues = [''no rating provided''],
      details = [(''rating'', PNone)]\<rparr>"
  "1 \<le> r \<Longrightarrow> r \<le> 2 \<Longrightarrow> status (check_cognitive (Some r)) = ''OVERLOADED''"
  "status (check_cognitive (Some 3)) = ''STRAINED''"
  "4 \<le> r \<Longrightarrow> r \<le> 5 \<Longrightarrow> status (check_cognitive (Some r)) = ''STABLE''"
  by (simp_all add: check_cognitive_def Let_def)
section \<open>Properties of the classification policy\<close>

lemma fallback_or_default_in:
  "dflt \<in> {''PASS'', ''SOFT_FAIL'', ''HARD_FAIL''} \<Longrightarrow>
   fallback_or_default x dflt \<in> {''PASS'', ''SOFT_FAIL'', ''HARD_FAIL''}"
  unfolding fallback_or_default_def by (cases "x \<in> {''PASS'', ''SOFT_FAIL'', ''HARD_FAIL''}") simp_all

lemma defaults_invariant: "policy_invariant defaults"
  by (simp add: policy_invariant_def defaults_def)

lemma from_json_invariant_aux:
  assumes "from_json obj = Inr p"
  shows "policy_invariant p"
proof -
  have d: "treat_missing_report_as defaults \<in> {''PASS'', ''SOFT_FAIL'', ''HARD_FAIL''}"
    "treat_missing_layers_as defaults \<in> {''PASS'', ''SOFT_FAIL'', ''HARD_FAIL''}"
    "hard_layers_on_degraded defaults \<noteq> {}" "hard_statuses defaults \<noteq> {}"
    "soft_statuses defaults \<noteq> {}"
    using defaults_invariant by (simp_all add: policy_invariant_def)
  from assms obtain hl hs ss where
    p: "p = \<lparr>hard_layers_on_degraded =
               (if str_items lower hl = {} then hard_layers_on_degraded defaults else str_items lower hl),
             hard_statuses =
               (if str_items upper hs = {} then hard_statuses defaults else str_items upper hs),
             soft_statuses =
               (if str_items upper ss = {} then soft_statuses defaults else str_items upper ss),
             treat_missing_report_as =
               fallback_or_default
                 (upper (strip (py_str (dict_get_default obj ''treat_missing_report_as''
                                        (PStr (treat_missing_report_as defaults))))))
                 (treat_missing_report_as defaults),
             treat_missing_layers_as =
               fallback_or_default
                 (upper (strip (py_str (dict_get_default obj ''treat_missing_layers_as''
                                        (PStr (treat_missing_layers_as defaults))))))
                 (treat_missing_layers_as defaults)\<rparr>"
    by (auto simp: from_json_def Let_def split: sum.splits)
  show ?thesis
    unfolding policy_invariant_def p
    using d fallback_or_default_in [OF d(1)] fallback_or_default_in [OF d(2)]
    by simp
qed

lemma load_invariant: "policy_invariant (load path)"
  by (auto simp: load_def defaults_invariant from_json_invariant_aux
           split: policy_path.splits pyval.splits sum.splits)

lemma str_items_no_valid: "no_valid_entry xs \<Longrightarrow> str_items f xs = {}"
  by (induction xs) (auto simp: no_valid_entry_def str_items_def split: pyval.splits)

lemma from_json_reverts:
  assumes "from_json obj = Inr p"
  shows "dict_get obj ''hard_layers_on_degraded'' = Some (PList xs) \<Longrightarrow> no_valid_entry xs \<Longrightarrow>
           hard_layers_on_degraded p = hard_layers_on_degraded defaults"
    and "dict_get obj ''hard_statuses'' = Some (PList xs) \<Longrightarrow> no_valid_entry xs \<Longrightarrow>
           hard_statuses p = hard_statuses defaults"
    and "dict_get obj ''soft_statuses'' = Some (PList xs) \<Longrightarrow> no_valid_entry xs \<Longrightarrow>
           soft_statuses p = soft_statuses defaults"
  using assms
  by (auto simp: from_json_def Let_def dict_get_def dict_get_default_def py_iter_def
                 str_items_no_valid split: sum.splits)

text \<open>
  C10. Whenever \<open>from_json\<close> returns a policy (it raises \<open>TypeError\<close> when one of the
  three collection keys holds a value that cannot be iterated), and for everything
  \<open>load\<close> returns, both fallbacks are one of PASS, SOFT\_FAIL, HARD\_FAIL and the three
  sets are not empty. A key that holds an empty list, or a list without a non-blank string,
  gets its built-in default.
\<close>

theorem from_json_policy_invariant:
  "(from_json obj = Inr p \<longrightarrow>
      policy_invariant p
      \<and> (dict_get obj ''hard_layers_on_degraded'' = Some (PList xs) \<and> no_valid_entry xs \<longrightarrow>
           hard_layers_on_degraded p = {''meta'', ''codex'', ''digital''})
      \<and> (dict_get obj ''hard_statuses'' = Some (PList ys) \<and> no_valid_entry ys \<longrightarrow>
           hard_statuses p = {''CORRUPTED'', ''OVERLOADED''})
      \<and> (dict_get obj ''soft_statuses'' = Some (PList zs) \<and> no_valid_entry zs \<longrightarrow>
           soft_statuses p = {''DEGRADED''}))
   \<and> policy_invariant (load path)"
proof -
  have "policy_invariant (load path)" by (rule load_invariant)
  moreover have "policy_invariant p" if "from_json obj = Inr p"
    using that by (rule from_json_invariant_aux)
  moreover have "hard_layers_on_degraded p = {''meta'', ''codex'', ''digital''}"
    if "from_json obj = Inr p" "dict_get obj ''hard_layers_on_degraded'' = Some (PList xs)"
      "no_valid_entry xs"
    using from_json_reverts(1) [OF that] by (simp add: defaults_def)
  moreover have "hard_statuses p = {''CORRUPTED'', ''OVERLOADED''}"
    if "from_json obj = Inr p" "dict_get obj ''hard_statuses'' = Some (PList ys)"
      "no_valid_entry ys"
    using from_json_reverts(2) [OF that] by (simp add: defaults_def)
  moreover have "soft_statuses p = {''DEGRADED''}"
    if "from_json obj = Inr p" "dict_get obj ''soft_statuses'' = Some (PList zs)"
      "no_valid_entry zs"
    using from_json_reverts(3) [OF that] by (simp add: defaults_def)
  ultimately show ?thesis by blast
qed

theorem from_json_policy_invariant_witness:
  "from_json [(''hard_layers_on_degraded'', PList []),
              (''hard_statuses'', PList [PInt 3, PStr ''  '']),
              (''soft_statuses'', PList [PNone]),
              (''treat_missing_report_as'', PStr ''maybe'')] = Inr defaults
   \<and> no_valid_entry [] \<and> no_valid_entry [PInt 3, PStr ''  ''] \<and> no_valid_entry [PNone]
   \<and> policy_invariant defaults
   \<and> hard_layers_on_degraded defaults = {''meta'', ''codex'', ''digital''}
   \<and> hard_statuses defaults = {''CORRUPTED'', ''OVERLOADED''}
   \<and> soft_statuses defaults = {''DEGRADED''}"
proof -
  let ?obj = "[(''hard_layers_on_degraded'', PList []),
              (''hard_statuses'', PList [PInt 3, PStr ''  '']),
              (''soft_statuses'', PList [PNone]),
              (''treat_missing_report_as'', PStr ''maybe'')]"
  have nv: "no_valid_entry []" "no_valid_entry [PInt 3, PStr ''  '']" "no_valid_entry [PNone]"
    by (simp_all add: no_valid_entry_def strip_def is_space_def)
  have si: "str_items f [] = {}" "str_items f [PInt 3, PStr ''  ''] = {}" "str_items f [PNone] = {}"
    for f
    using nv by (simp_all add: str_items_no_valid)
  have fj: "from_json ?obj = Inr defaults"
    by (simp add: from_json_def Let_def dict_get_default_def py_iter_def si py_str_def
          strip_def is_space_def upper_def upper_char_def fallback_or_default_def defaults_def)
  have g: "dict_get ?obj ''hard_layers_on_degraded'' = Some (PList [])"
    "dict_get ?obj ''hard_statuses'' = Some (PList [PInt 3, PStr ''  ''])"
    "dict_get ?obj ''soft_statuses'' = Some (PList [PNone])"
    by (simp_all add: dict_get_def)
  from from_json_policy_invariant [of ?obj defaults "[]" "[PInt 3, PStr ''  '']" "[PNone]" NoPath]
    fj g nv
  show ?thesis by blast
qed

section \<open>Properties of the classification\<close>

text \<open>
  C2, as the claim states it, fails: with return code 0 a missing report is classified
  PASS, although the default policy's fallback is HARD\_FAIL; and with a nonzero return
  code the classification is PASS when the policy file sets the fallback to PASS.
\<close>

theorem classify_missing_report_pass:
  "classify None 0 defaults = Inr (''PASS'', ''log_only'', [])
   \<and> treat_missing_report_as defaults = ''HARD_FAIL''
   \<and> classify None 1 (load (PolicyFile (PDict [(''treat_missing_report_as'', PStr ''pass'')])))
       = Inr (''PASS'', ''log_only'', [''missing_or_unparseable_run_report''])"
proof -
  have "load (PolicyFile (PDict [(''treat_missing_report_as'', PStr ''pass'')]))
      = defaults\<lparr>treat_missing_report_as := ''PASS''\<rparr>"
    by (simp add: load_def from_json_def Let_def dict_get_default_def py_iter_def py_str_def
          strip_def is_space_def upper_def upper_char_def fallback_or_default_def defaults_def
          str_items_def lower_def lower_char_def)
  then show ?thesis
    by (simp add: classify_def action_of_def defaults_def)
qed

text \<open>
  C2, amended. With a nonzero return code and no report, the classification is the policy's
  fallback for a missing report (HARD\_FAIL in the default policy), the action is the one of
  that classification, and the reason is the missing report. With return code 0 the
  classification is PASS, with or without a report.
\<close>

theorem classify_missing_report:
  "(code \<noteq> 0 \<longrightarrow>
      classify None code policy =
        Inr (treat_missing_report_as policy, action_of (treat_missing_report_as policy),
             [''missing_or_unparseable_run_report'']))
   \<and> classify report 0 policy = Inr (''PASS'', ''log_only'', [])
   \<and> treat_missing_report_as defaults = ''HARD_FAIL''"
  by (simp add: classify_def defaults_def Let_def)

theorem classify_missing_report_witness:
  "(1::int) \<noteq> 0
   \<and> classify None 1 defaults
       = Inr (''HARD_FAIL'', ''emit_alert'', [''missing_or_unparseable_run_report''])"
  using classify_missing_report [of 1 defaults None]
  by (simp add: action_of_def defaults_def)

section \<open>Properties of the loop controller\<close>

text \<open>
  C3. A gated run of one iteration with one retry allowed, whose first attempt fails softly
  (return code 1, layer \<open>physical\<close> DEGRADED) and whose second and final attempt passes:
  \<open>main\<close> returns 1, because the exit status looks at the return code of every attempt in
  \<open>outcomes\<close>, not only at the final attempt of each iteration.
\<close>

theorem main_gated_exit_after_retry:
  "(case main \<lparr>iterations = 1, interval_seconds = 0, max_retries = 1,
                 emit_alerts = False, gated = True\<rparr> NoPath (flaky_engine 2) of
      Inl e \<Rightarrow> None
    | Inr r \<Rightarrow>
        Some (fst r, map (\<lambda>outc. (iteration outc, attempt outc, rc outc, classification outc))
                      (outcomes (snd r))))
   = Some (1, [(1, 1, 1, ''SOFT_FAIL''), (1, 2, 0, ''PASS'')])"
  by code_simp

subsection \<open>The attempt loop\<close>














section \<open>Properties of the ledger\<close>

subsection \<open>Dictionaries\<close>

lemma map_of_dict_set: "map_of (dict_set d k v) = (map_of d)(k \<mapsto> v)"
  by (induction d) (auto simp: fun_eq_iff)

lemma dict_get_default_dict_set:
  "dict_get_default (dict_set d k v) k' dflt = (if k' = k then v else dict_get_default d k' dflt)"
  by (simp add: dict_get_default_def map_of_dict_set)

subsection \<open>Chain heads\<close>

lemma chain_state_snoc: "chain_state st (es @ [e]) = chain_step (chain_state st es) e"
  by (simp add: chain_state_def)

lemma chain_state_fst: "fst (chain_state st es) = (if es = [] then fst st else fst (last es))"
  by (induction es rule: rev_induct) (simp_all add: chain_state_snoc chain_step_def, simp add: chain_state_def)

lemma chain_state_snd:
  "dict_get_default (snd (chain_state st es)) lyr dflt =
     (if filter (\<lambda>e. snd e = lyr) es = [] then dict_get_default (snd st) lyr dflt
      else fst (last (filter (\<lambda>e. snd e = lyr) es)))"
proof (induction es rule: rev_induct)
  case Nil
  show ?case by (simp add: chain_state_def)
next
  case (snoc e es)
  show ?case
    by (simp add: chain_state_snoc chain_step_def dict_get_default_dict_set snoc.IH)
qed

lemma dict_get_default_Nil: "dict_get_default [] k dflt = dflt"
  by (simp add: dict_get_default_def)

lemma chain_state_empty:
  "fst (chain_state ([], []) (entries lines)) = head_global lines"
  "dict_get_default (snd (chain_state ([], []) (entries lines))) lyr [] = head_layer lyr lines"
  by (simp_all add: chain_state_fst chain_state_snd head_global_def head_layer_def last_hash_def
        dict_get_default_Nil)

lemma entries_Nil: "entries [] = []"
  by (simp add: entries_def List.map_filter_simps)

lemma entries_Cons:
  "entries (ln # rest) = (case entry_of ln of None \<Rightarrow> entries rest | Some e \<Rightarrow> e # entries rest)"
  by (simp add: entries_def List.map_filter_simps split: option.splits)


lemma entry_of_not_parsed: "entry_of Blank = None" "entry_of Invalid = None"
  by (simp_all add: entry_of_def)

lemma chain_state_Cons:
  "chain_state st (entries (ln # rest)) =
     chain_state (case entry_of ln of None \<Rightarrow> st | Some e \<Rightarrow> chain_step st e) (entries rest)"
  by (simp add: entries_Cons chain_state_def split: option.splits)

lemma index_lines_object:
  "index_lines (Parsed (PDict d) # rest) st =
     index_lines rest (case entry_of (Parsed (PDict d)) of None \<Rightarrow> st | Some e \<Rightarrow> chain_step st e)"
  by (auto simp: entry_of_def chain_step_def split: option.splits pyval.splits)

lemma index_lines_readable:
  "readable lines \<Longrightarrow> index_lines lines st = Inr (chain_state st (entries lines))"
proof (induction lines arbitrary: st)
  case Nil
  show ?case by (simp add: entries_Nil chain_state_def)
next
  case (Cons ln rest)
  from Cons.prems have r: "readable rest" by (simp add: readable_def)
  show ?case
  proof (cases ln)
    case Blank
    then show ?thesis using Cons.IH [OF r] by (simp add: chain_state_Cons entry_of_not_parsed)
  next
    case Invalid
    then show ?thesis using Cons.IH [OF r] by (simp add: chain_state_Cons entry_of_not_parsed)
  next
    case (Parsed v)
    with Cons.prems obtain d where v: "v = PDict d"
      by (cases v) (simp_all add: readable_def is_object_line_def)
    show ?thesis
      unfolding Parsed v index_lines_object chain_state_Cons by (rule Cons.IH [OF r])
  qed
qed

lemma index_lines_unreadable:
  "\<not> readable lines \<Longrightarrow> index_lines lines st = Inl AttributeError"
proof (induction lines arbitrary: st)
  case Nil
  then show ?case by (simp add: readable_def)
next
  case (Cons ln rest)
  show ?case
  proof (cases "is_object_line ln")
    case True
    with Cons.prems have r: "\<not> readable rest" by (simp add: readable_def)
    from True show ?thesis
    proof (cases ln)
      case (Parsed v)
      with True obtain d where v: "v = PDict d"
        by (cases v) (simp_all add: is_object_line_def)
      show ?thesis unfolding Parsed v index_lines_object by (rule Cons.IH [OF r])
    qed (use Cons.IH [OF r] in simp_all)
  next
    case False
    then obtain v where "ln = Parsed v" "\<forall>d. v \<noteq> PDict d"
      by (cases ln) (auto simp: is_object_line_def split: pyval.splits)
    then show ?thesis by (cases v) simp_all
  qed
qed


subsection \<open>What append writes\<close>

lemma dict_get_Cons:
  "dict_get ((k, v) # d) key = (if k = key then Some v else dict_get d key)"
  by (simp add: dict_get_def)

lemma roundtrip_to_dict:
  "hash e = Some h \<Longrightarrow>
   \<exists>obj. json_roundtrip (PDict (to_dict e)) = PDict obj
     \<and> dict_get obj ''hash'' = Some (PStr h)
     \<and> dict_get obj ''layer'' = Some (PStr (layer e))
     \<and> dict_get obj ''previous_hash'' = Some (PStr (previous_hash e))
     \<and> dict_get obj ''layer_previous_hash'' = Some (PStr (layer_previous_hash e))"
  by (cases "proof_str e") (simp_all add: to_dict_def sort_items_def dict_of_pairs_def dict_get_def)

lemma append_returns:
  assumes "append sha256_text led now (PStr lyr) (PStr et) (PDict d) pr = Inr (h, led')"
  shows "readable (file_lines led)"
    and "\<exists>obj. ledger_file led' = Some (file_lines led @ [Parsed (PDict obj)])
       \<and> dict_get obj ''hash'' = Some (PStr h)
       \<and> dict_get obj ''layer'' = Some (PStr lyr)
       \<and> dict_get obj ''previous_hash'' = Some (PStr (head_global (file_lines led)))
       \<and> dict_get obj ''layer_previous_hash'' = Some (PStr (head_layer lyr (file_lines led)))"
proof -
  show r: "readable (file_lines led)"
  proof (rule ccontr)
    assume "\<not> readable (file_lines led)"
    from index_lines_unreadable [OF this, of "([], [])"] assms show False
      by (simp add: append_def file_lines_def split: if_splits)
  qed
  let ?st = "chain_state ([], []) (entries (file_lines led))"
  let ?e = "\<lparr>ts_utc = fst now, ts_unix = snd now, layer = lyr, event_type = et, data = d,
             engine_version = version led, previous_hash = head_global (file_lines led),
             layer_previous_hash = head_layer lyr (file_lines led),
             proof_str = pr, hash = Some h\<rparr>"
  from assms index_lines_readable [OF r, of "([], [])"]
  have "ledger_file led' = Some (file_lines led @ [Parsed (json_roundtrip (PDict (to_dict ?e)))])"
    by (auto simp: append_def file_lines_def Let_def chain_state_empty
             split: if_splits sum.splits)
  moreover from roundtrip_to_dict [of ?e h]
  obtain obj where "json_roundtrip (PDict (to_dict ?e)) = PDict obj"
    "dict_get obj ''hash'' = Some (PStr h)" "dict_get obj ''layer'' = Some (PStr lyr)"
    "dict_get obj ''previous_hash'' = Some (PStr (head_global (file_lines led)))"
    "dict_get obj ''layer_previous_hash'' = Some (PStr (head_layer lyr (file_lines led)))"
    by auto
  ultimately show "\<exists>obj. ledger_file led' = Some (file_lines led @ [Parsed (PDict obj)])
       \<and> dict_get obj ''hash'' = Some (PStr h)
       \<and> dict_get obj ''layer'' = Some (PStr lyr)
       \<and> dict_get obj ''previous_hash'' = Some (PStr (head_global (file_lines led)))
       \<and> dict_get obj ''layer_previous_hash'' = Some (PStr (head_layer lyr (file_lines led)))"
    by simp
qed


lemma entry_of_object:
  "dict_get obj ''hash'' = Some (PStr h) \<Longrightarrow> dict_get obj ''layer'' = Some (PStr lyr) \<Longrightarrow>
   entry_of (Parsed (PDict obj)) = Some (h, lyr)"
  by (simp add: entry_of_def)






subsection \<open>The layer chain\<close>




subsection \<open>What verify reports\<close>

lemma sortable_py_of_json: "sortable (py_of_json v)"
  unfolding py_of_json_def
proof (induction v)
  case (PList xs)
  then show ?case by (simp add: list_all_iff)
next
  case (PDict kvs)
  have "keys_comparable (map (map_prod KStr (map_pyval KStr)) kvs)"
    by (simp add: keys_comparable_def list_all_iff)
  moreover have "list_all (\<lambda>(k, v). sortable v) (map (map_prod KStr (map_pyval KStr)) kvs)"
    using PDict by (auto simp: list_all_iff)
  ultimately show ?case by simp
qed simp_all

lemma canonical_json_py_of_json:
  "canonical_json (py_of_json v) = Inr (canonical_text (py_of_json v))"
  by (simp add: canonical_json_def sortable_py_of_json)

lemma verify_lines_object:
  "verify_lines sha256_text idx (Parsed (PDict d) # rest) st =
     verify_lines sha256_text (idx + 1) rest
       (st\<lparr>v_ok := v_ok st \<and> line_reasons sha256_text idx (v_prev_global st)
                  (\<lambda>lyr. dict_get_default (v_prev_layer st) lyr []) (Parsed (PDict d)) = [],
           v_reasons := v_reasons st @ line_reasons sha256_text idx (v_prev_global st)
                  (\<lambda>lyr. dict_get_default (v_prev_layer st) lyr []) (Parsed (PDict d)),
           v_total := v_total st + 1,
           v_prev_global := fst (case entry_of (Parsed (PDict d)) of
                None \<Rightarrow> (v_prev_global st, v_prev_layer st)
              | Some e \<Rightarrow> chain_step (v_prev_global st, v_prev_layer st) e),
           v_prev_layer := snd (case entry_of (Parsed (PDict d)) of
                None \<Rightarrow> (v_prev_global st, v_prev_layer st)
              | Some e \<Rightarrow> chain_step (v_prev_global st, v_prev_layer st) e)\<rparr>)"
proof -
  let ?rs = "line_reasons sha256_text idx (v_prev_global st)
                  (\<lambda>lyr. dict_get_default (v_prev_layer st) lyr []) (Parsed (PDict d))"
  let ?cs = "case entry_of (Parsed (PDict d)) of
                None \<Rightarrow> (v_prev_global st, v_prev_layer st)
              | Some e \<Rightarrow> chain_step (v_prev_global st, v_prev_layer st) e"
  let ?st' = "st\<lparr>v_ok := v_ok st \<and> ?rs = [], v_reasons := v_reasons st @ ?rs,
           v_total := v_total st + 1, v_prev_global := fst ?cs, v_prev_layer := snd ?cs\<rparr>"
  show "verify_lines sha256_text idx (Parsed (PDict d) # rest) st =
     verify_lines sha256_text (idx + 1) rest ?st'"
  proof (cases "entry_of (Parsed (PDict d))")
    case None
    have "verify_lines sha256_text idx (Parsed (PDict d) # rest) st =
       verify_lines sha256_text (idx + 1) rest
         (flag idx ''missing hash/layer'' (st\<lparr>v_total := v_total st + 1\<rparr>))"
      using None by (auto simp: entry_of_def Let_def split: option.splits pyval.splits)
    moreover have "flag idx ''missing hash/layer'' (st\<lparr>v_total := v_total st + 1\<rparr>) = ?st'"
      using None by (cases st) (simp add: flag_def line_reasons_def)
    ultimately show ?thesis by simp
  next
    case (Some e)
    then obtain h lyr where e: "e = (h, lyr)" and hl: "dict_get d ''hash'' = Some (PStr h)"
      "dict_get d ''layer'' = Some (PStr lyr)"
      by (auto simp: entry_of_def split: option.splits pyval.splits)
    let ?st1 = "st\<lparr>v_total := v_total st + 1\<rparr>"
    let ?st2 = "if object_digest sha256_text d \<noteq> h then flag idx ''hash mismatch'' ?st1 else ?st1"
    let ?st3 = "if dict_get_default d ''previous_hash'' (PStr []) \<noteq> PStr (v_prev_global ?st2)
                then flag idx ''global previous_hash mismatch'' ?st2 else ?st2"
    let ?st4 = "?st3\<lparr>v_prev_global := h\<rparr>"
    let ?st5 = "if dict_get_default d ''layer_previous_hash'' (PStr [])
                     \<noteq> PStr (dict_get_default (v_prev_layer ?st4) lyr [])
                then flag idx ''layer_previous_hash mismatch'' ?st4 else ?st4"
    have "verify_lines sha256_text idx (Parsed (PDict d) # rest) st =
       verify_lines sha256_text (idx + 1) rest
         (?st5\<lparr>v_prev_layer := dict_set (v_prev_layer ?st5) lyr h\<rparr>)"
      unfolding verify_lines.simps
      by (simp add: hl canonical_json_py_of_json Let_def object_digest_def)
    moreover have "?st5\<lparr>v_prev_layer := dict_set (v_prev_layer ?st5) lyr h\<rparr> = ?st'"
      by (cases st) (simp add: flag_def line_reasons_def Some e chain_step_def)
    ultimately show ?thesis by simp
  qed
qed

lemma verify_lines_step:
  assumes "is_object_line ln"
  shows "verify_lines sha256_text idx (ln # rest) st =
     verify_lines sha256_text (idx + 1) rest
       (st\<lparr>v_ok := v_ok st \<and> line_reasons sha256_text idx (v_prev_global st)
                  (\<lambda>lyr. dict_get_default (v_prev_layer st) lyr []) ln = [],
           v_reasons := v_reasons st @ line_reasons sha256_text idx (v_prev_global st)
                  (\<lambda>lyr. dict_get_default (v_prev_layer st) lyr []) ln,
           v_total := v_total st + (if ln = Blank then 0 else 1),
           v_prev_global := fst (case entry_of ln of
                None \<Rightarrow> (v_prev_global st, v_prev_layer st)
              | Some e \<Rightarrow> chain_step (v_prev_global st, v_prev_layer st) e),
           v_prev_layer := snd (case entry_of ln of
                None \<Rightarrow> (v_prev_global st, v_prev_layer st)
              | Some e \<Rightarrow> chain_step (v_prev_global st, v_prev_layer st) e)\<rparr>)"
proof (cases ln)
  case Blank
  have "st\<lparr>v_ok := v_ok st \<and> ([]::string list) = [], v_reasons := v_reasons st @ [],
          v_total := v_total st + 0, v_prev_global := v_prev_global st,
          v_prev_layer := v_prev_layer st\<rparr> = st"
    by (cases st) simp
  then show ?thesis
    by (simp add: Blank line_reasons_def entry_of_not_parsed)
next
  case Invalid
  have "flag idx ''invalid json'' (st\<lparr>v_total := v_total st + 1\<rparr>)
      = st\<lparr>v_ok := v_ok st \<and> [line_reason idx ''invalid json''] = [],
           v_reasons := v_reasons st @ [line_reason idx ''invalid json''],
           v_total := v_total st + 1, v_prev_global := v_prev_global st,
           v_prev_layer := v_prev_layer st\<rparr>"
    by (cases st) (simp add: flag_def)
  then show ?thesis
    by (simp add: Invalid line_reasons_def entry_of_not_parsed)
next
  case (Parsed v)
  with assms obtain d where v: "v = PDict d"
    by (cases v) (simp_all add: is_object_line_def)
  show ?thesis
    unfolding Parsed v verify_lines_object by simp
qed

lemma verify_lines_readable:
  "readable lines \<Longrightarrow>
   verify_lines sha256_text idx lines st =
     Inr (st\<lparr>v_ok := v_ok st
                  \<and> all_reasons sha256_text idx (v_prev_global st, v_prev_layer st) lines = [],
              v_reasons := v_reasons st
                  @ all_reasons sha256_text idx (v_prev_global st, v_prev_layer st) lines,
              v_total := v_total st + length (filter (\<lambda>ln. ln \<noteq> Blank) lines),
              v_prev_global :=
                fst (chain_state (v_prev_global st, v_prev_layer st) (entries lines)),
              v_prev_layer :=
                snd (chain_state (v_prev_global st, v_prev_layer st) (entries lines))\<rparr>)"
proof (induction lines arbitrary: idx st)
  case Nil
  show ?case by (cases st) (simp add: entries_Nil chain_state_def)
next
  case (Cons ln rest)
  from Cons.prems have o: "is_object_line ln" and r: "readable rest"
    by (simp_all add: readable_def)
  show ?case
    unfolding verify_lines_step [OF o] Cons.IH [OF r]
    by (cases st) (simp add: chain_state_Cons split: option.splits)
qed


lemma all_reasons_concat:
  "all_reasons sha256_text idx st lines =
     concat (map (\<lambda>i. line_reasons sha256_text (idx + i)
                         (fst (chain_state st (entries (take i lines))))
                         (\<lambda>lyr. dict_get_default (snd (chain_state st (entries (take i lines)))) lyr [])
                         (lines ! i))
                 [0 ..< length lines])"
proof (induction lines arbitrary: idx st)
  case Nil
  show ?case by simp
next
  case (Cons ln rest)
  have up: "[0 ..< length (ln # rest)] = 0 # map Suc [0 ..< length rest]"
    by (simp add: upt_conv_Cons map_Suc_upt del: upt_Suc)
  show ?case
    unfolding up all_reasons.simps Cons.IH
    by (simp add: o_def entries_Nil chain_state_Cons chain_state_def [of _ "[]"])
qed

lemma verify_readable:
  assumes "ledger_file led = Some lines" and "readable lines"
  shows "verify sha256_text led =
     Inr \<lparr>ok = (concat (map (reasons_at sha256_text lines) [0 ..< length lines]) = []),
          total_entries = length (filter (\<lambda>ln. ln \<noteq> Blank) lines),
          reasons = concat (map (reasons_at sha256_text lines) [0 ..< length lines])\<rparr>"
proof -
  have "all_reasons sha256_text 1 ([], []) lines
      = concat (map (reasons_at sha256_text lines) [0 ..< length lines])"
    unfolding all_reasons_concat reasons_at_def
    by (simp add: chain_state_empty add.commute)
  then show ?thesis
    using assms by (simp add: verify_def verify_lines_readable)
qed











subsection \<open>Corrupted lines\<close>





subsection \<open>Writing a line and reading it back\<close>

lemma insort_key_map:
  "\<forall>x. K (h x) = K' x \<Longrightarrow> insort_key K (h x) (map h ys) = map h (insort_key K' x ys)"
  by (induction ys) simp_all

lemma sort_key_map:
  "\<forall>x. K (h x) = K' x \<Longrightarrow> sort_key K (map h xs) = map h (sort_key K' xs)"
  by (induction xs) (simp_all add: insort_key_map)

lemma sort_key_idem: "sort_key K (sort_key K xs) = sort_key K xs"
  by (rule sort_key_id_if_sorted) simp

lemma dict_set_fresh: "key \<notin> fst ` set d \<Longrightarrow> dict_set d key v = d @ [(key, v)]"
  by (induction d) auto

lemma foldl_dict_set_distinct:
  "distinct (map fst (d @ ps)) \<Longrightarrow>
   foldl (\<lambda>d kv. dict_set d (fst kv) (snd kv)) d ps = d @ ps"
proof (induction ps arbitrary: d)
  case Nil
  show ?case by simp
next
  case (Cons p ps)
  from Cons.prems have "fst p \<notin> fst ` set d" by auto
  then have "dict_set d (fst p) (snd p) = d @ [p]" by (simp add: dict_set_fresh)
  moreover from Cons.prems have "distinct (map fst ((d @ [p]) @ ps))" by simp
  ultimately show ?case using Cons.IH [of "d @ [p]"] by simp
qed

lemma dict_of_pairs_distinct: "distinct (map fst ps) \<Longrightarrow> dict_of_pairs ps = ps"
  using foldl_dict_set_distinct [of "[]" ps] by (simp add: dict_of_pairs_def)

lemma is_KStr_key: "is_KStr k \<Longrightarrow> KStr (key_str k) = k" "is_KStr k \<Longrightarrow> json_key_text k = key_str k"
  by (cases k; simp)+

lemma sort_items_str:
  "list_all (\<lambda>kv. is_KStr (fst kv)) kvs \<Longrightarrow> sort_items kvs = sort_key (\<lambda>kv. key_str (fst kv)) kvs"
  by (simp add: sort_items_def)

lemma roundtrip_dict_str:
  assumes s: "list_all (\<lambda>kv. is_KStr (fst kv)) kvs" and d: "distinct (map fst kvs)"
  shows "json_roundtrip (PDict kvs) =
     PDict (map (\<lambda>kv. (key_str (fst kv), json_roundtrip (snd kv)))
                (sort_key (\<lambda>kv. key_str (fst kv)) kvs))"
proof -
  let ?K = "\<lambda>kv. key_str (fst kv)"
  let ?h = "\<lambda>(k, v). (k, json_roundtrip v)"
  have s': "list_all (\<lambda>kv. is_KStr (fst kv)) (map ?h kvs)"
    using s by (simp add: list_all_iff split_beta)
  have srt: "sort_items (map ?h kvs) = map ?h (sort_key ?K kvs)"
    unfolding sort_items_str [OF s']
    by (rule sort_key_map) (simp add: split_beta)
  have keys: "map fst (map (\<lambda>kv. (json_key_text (fst kv), snd kv)) (map ?h (sort_key ?K kvs)))
      = map ?K (sort_key ?K kvs)"
    using s by (auto simp: list_all_iff split_beta is_KStr_key)
  have inj: "inj_on key_str (set (map fst kvs))"
  proof (rule inj_onI)
    fix a b
    assume "a \<in> set (map fst kvs)" "b \<in> set (map fst kvs)" and eq: "key_str a = key_str b"
    with s have "is_KStr a" "is_KStr b" by (auto simp: list_all_iff)
    with eq show "a = b" by (cases a; cases b) simp_all
  qed
  have "distinct (map key_str (map fst kvs))"
    using d inj by (simp only: distinct_map)
  then have dk: "distinct (map ?K kvs)" by (simp add: o_def)
  have "mset (map ?K (sort_key ?K kvs)) = mset (map ?K kvs)" by simp
  then have "distinct (map ?K (sort_key ?K kvs)) = distinct (map ?K kvs)"
    by (rule mset_eq_imp_distinct_iff)
  with dk have "distinct (map ?K (sort_key ?K kvs))" by simp
  then have "dict_of_pairs (map (\<lambda>kv. (json_key_text (fst kv), snd kv)) (map ?h (sort_key ?K kvs)))
      = map (\<lambda>kv. (json_key_text (fst kv), snd kv)) (map ?h (sort_key ?K kvs))"
    by (intro dict_of_pairs_distinct) (simp only: keys)
  then show ?thesis
    using s by (auto simp: srt split_beta list_all_iff is_KStr_key)
qed


lemma canonical_text_roundtrip:
  "json_like v \<Longrightarrow> canonical_text (py_of_json (json_roundtrip v)) = canonical_text v"
proof (induction v)
  case (PList xs)
  then have "map (\<lambda>x. canonical_text (py_of_json (json_roundtrip x))) xs = map canonical_text xs"
    by (intro map_cong refl) (auto simp: list_all_iff)
  then show ?case by (simp add: py_of_json_def o_def cong: map_cong)
next
  case (PDict kvs)
  let ?K = "\<lambda>kv. key_str (fst kv)"
  let ?S = "sort_key ?K kvs"
  from PDict.prems have s: "list_all (\<lambda>kv. is_KStr (fst kv)) kvs" and d: "distinct (map fst kvs)"
    and j: "\<And>kv. kv \<in> set kvs \<Longrightarrow> json_like (snd kv)"
    by (auto simp: list_all_iff)
  have ih: "canonical_text (py_of_json (json_roundtrip (snd kv))) = canonical_text (snd kv)"
    if "kv \<in> set kvs" for kv
    using PDict.IH [of kv "snd kv"] j [OF that] that by (cases kv) auto
  have sS: "list_all (\<lambda>kv. is_KStr (fst kv)) ?S" using s by (simp add: list_all_iff)
  have "py_of_json (json_roundtrip (PDict kvs))
      = PDict (map (\<lambda>kv. (fst kv, py_of_json (json_roundtrip (snd kv)))) ?S)"
    unfolding roundtrip_dict_str [OF s d] py_of_json_def
    using sS by (auto simp: list_all_iff is_KStr_key)
  then have "canonical_text (py_of_json (json_roundtrip (PDict kvs)))
      = ''{'' @ join '','' (map render_item (sort_items
            (map (\<lambda>kv. (fst kv, canonical_text (py_of_json (json_roundtrip (snd kv))))) ?S)))
        @ ''}''"
    by (simp add: o_def split_beta)
  also have "map (\<lambda>kv. (fst kv, canonical_text (py_of_json (json_roundtrip (snd kv))))) ?S
      = map (\<lambda>kv. (fst kv, canonical_text (snd kv))) ?S"
    by (intro map_cong refl) (simp add: ih)
  also have "\<dots> = sort_key ?K (map (\<lambda>kv. (fst kv, canonical_text (snd kv))) kvs)"
    by (rule sort_key_map [symmetric]) simp
  also have "sort_items \<dots> = sort_key ?K (map (\<lambda>kv. (fst kv, canonical_text (snd kv))) kvs)"
    using s by (simp add: sort_items_def list_all_iff sort_key_idem)
  also have "\<dots> = sort_items (map (\<lambda>(k, v). (k, canonical_text v)) kvs)"
    using s by (simp add: sort_items_def list_all_iff case_prod_unfold)
  finally show ?case by simp
qed (simp_all add: py_of_json_def)

lemma json_like_sortable: "json_like v \<Longrightarrow> sortable v"
proof (induction v)
  case (PList xs)
  then show ?case by (auto simp: list_all_iff)
next
  case (PDict kvs)
  then show ?case by (auto simp: list_all_iff keys_comparable_def)
qed simp_all


lemma line_text_without_proof:
  "canonical_text (py_of_json (PDict (dict_pop
      [(''data'', X), (''engine_version'', PStr ev), (''hash'', PStr h), (''layer'', PStr lyr),
       (''layer_previous_hash'', PStr lph), (''previous_hash'', PStr ph),
       (''ts_unix'', PFloat tu), (''ts_utc'', PStr ts), (''type'', PStr et)] ''hash'')))
   = ''{'' @ join '','' (map render_item
        [(KStr ''data'', canonical_text (py_of_json X)),
         (KStr ''engine_version'', json_quote ev), (KStr ''layer'', json_quote lyr),
         (KStr ''layer_previous_hash'', json_quote lph), (KStr ''previous_hash'', json_quote ph),
         (KStr ''ts_unix'', float_text tu), (KStr ''ts_utc'', json_quote ts),
         (KStr ''type'', json_quote et)]) @ ''}''"
  by (simp add: py_of_json_def dict_pop_def sort_items_def)

lemma line_text_with_proof:
  "canonical_text (py_of_json (PDict (dict_pop
      [(''data'', X), (''engine_version'', PStr ev), (''hash'', PStr h), (''layer'', PStr lyr),
       (''layer_previous_hash'', PStr lph), (''previous_hash'', PStr ph), (''proof'', PStr p),
       (''ts_unix'', PFloat tu), (''ts_utc'', PStr ts), (''type'', PStr et)] ''hash'')))
   = ''{'' @ join '','' (map render_item
        [(KStr ''data'', canonical_text (py_of_json X)),
         (KStr ''engine_version'', json_quote ev), (KStr ''layer'', json_quote lyr),
         (KStr ''layer_previous_hash'', json_quote lph), (KStr ''previous_hash'', json_quote ph),
         (KStr ''proof'', json_quote p),
         (KStr ''ts_unix'', float_text tu), (KStr ''ts_utc'', json_quote ts),
         (KStr ''type'', json_quote et)]) @ ''}''"
  by (simp add: py_of_json_def dict_pop_def sort_items_def)

lemma entry_text_without_proof:
  "canonical_text (PDict (dict_pop
      [(KStr ''ts_utc'', PStr ts), (KStr ''ts_unix'', PFloat tu), (KStr ''layer'', PStr lyr),
       (KStr ''type'', PStr et), (KStr ''data'', D), (KStr ''engine_version'', PStr ev),
       (KStr ''previous_hash'', PStr ph), (KStr ''layer_previous_hash'', PStr lph)]
      (KStr ''hash'')))
   = ''{'' @ join '','' (map render_item
        [(KStr ''data'', canonical_text D),
         (KStr ''engine_version'', json_quote ev), (KStr ''layer'', json_quote lyr),
         (KStr ''layer_previous_hash'', json_quote lph), (KStr ''previous_hash'', json_quote ph),
         (KStr ''ts_unix'', float_text tu), (KStr ''ts_utc'', json_quote ts),
         (KStr ''type'', json_quote et)]) @ ''}''"
  by (simp add: dict_pop_def sort_items_def)

lemma entry_text_with_proof:
  "canonical_text (PDict (dict_pop
      [(KStr ''ts_utc'', PStr ts), (KStr ''ts_unix'', PFloat tu), (KStr ''layer'', PStr lyr),
       (KStr ''type'', PStr et), (KStr ''data'', D), (KStr ''engine_version'', PStr ev),
       (KStr ''previous_hash'', PStr ph), (KStr ''layer_previous_hash'', PStr lph),
       (KStr ''proof'', PStr p)]
      (KStr ''hash'')))
   = ''{'' @ join '','' (map render_item
        [(KStr ''data'', canonical_text D),
         (KStr ''engine_version'', json_quote ev), (KStr ''layer'', json_quote lyr),
         (KStr ''layer_previous_hash'', json_quote lph), (KStr ''previous_hash'', json_quote ph),
         (KStr ''proof'', json_quote p),
         (KStr ''ts_unix'', float_text tu), (KStr ''ts_utc'', json_quote ts),
         (KStr ''type'', json_quote et)]) @ ''}''"
  by (simp add: dict_pop_def sort_items_def)

lemma roundtrip_entry:
  "hash e = Some h \<Longrightarrow>
   json_roundtrip (PDict (to_dict e)) =
     PDict ([(''data'', json_roundtrip (PDict (data e))),
             (''engine_version'', PStr (engine_version e)),
             (''hash'', PStr h),
             (''layer'', PStr (layer e)),
             (''layer_previous_hash'', PStr (layer_previous_hash e)),
             (''previous_hash'', PStr (previous_hash e))]
            @ (case proof_str e of None \<Rightarrow> [] | Some p \<Rightarrow> [(''proof'', PStr p)])
            @ [(''ts_unix'', PFloat (ts_unix e)),
               (''ts_utc'', PStr (ts_utc e)),
               (''type'', PStr (event_type e))])"
  by (cases "proof_str e") (simp_all add: to_dict_def sort_items_def dict_of_pairs_def)

lemma written_line_digest:
  assumes "hash e = None" and "json_like (PDict (data e))"
    and "json_roundtrip (PDict (to_dict (e\<lparr>hash := Some h\<rparr>))) = PDict obj"
  shows "canonical_text (py_of_json (PDict (dict_pop obj ''hash'')))
     = canonical_text (PDict (dict_pop (to_dict e) (KStr ''hash'')))"
proof -
  note rt = canonical_text_roundtrip [OF assms(2)]
  show ?thesis
  proof (cases "proof_str e")
    case None
    have "json_roundtrip (PDict (to_dict (e\<lparr>hash := Some h\<rparr>))) =
           PDict [(''data'', json_roundtrip (PDict (data e))),
             (''engine_version'', PStr (engine_version e)), (''hash'', PStr h),
             (''layer'', PStr (layer e)),
             (''layer_previous_hash'', PStr (layer_previous_hash e)),
             (''previous_hash'', PStr (previous_hash e)),
             (''ts_unix'', PFloat (ts_unix e)), (''ts_utc'', PStr (ts_utc e)),
             (''type'', PStr (event_type e))]"
      using roundtrip_entry [of "e\<lparr>hash := Some h\<rparr>" h] None by simp
    with assms(3) have "PDict obj = PDict [(''data'', json_roundtrip (PDict (data e))),
             (''engine_version'', PStr (engine_version e)), (''hash'', PStr h),
             (''layer'', PStr (layer e)),
             (''layer_previous_hash'', PStr (layer_previous_hash e)),
             (''previous_hash'', PStr (previous_hash e)),
             (''ts_unix'', PFloat (ts_unix e)), (''ts_utc'', PStr (ts_utc e)),
             (''type'', PStr (event_type e))]"
      by (simp only:)
    then have "obj = [(''data'', json_roundtrip (PDict (data e))),
             (''engine_version'', PStr (engine_version e)), (''hash'', PStr h),
             (''layer'', PStr (layer e)),
             (''layer_previous_hash'', PStr (layer_previous_hash e)),
             (''previous_hash'', PStr (previous_hash e)),
             (''ts_unix'', PFloat (ts_unix e)), (''ts_utc'', PStr (ts_utc e)),
             (''type'', PStr (event_type e))]"
      by (simp only: pyval.inject)
    moreover have "to_dict e = [(KStr ''ts_utc'', PStr (ts_utc e)),
        (KStr ''ts_unix'', PFloat (ts_unix e)), (KStr ''layer'', PStr (layer e)),
        (KStr ''type'', PStr (event_type e)), (KStr ''data'', PDict (data e)),
        (KStr ''engine_version'', PStr (engine_version e)),
        (KStr ''previous_hash'', PStr (previous_hash e)),
        (KStr ''layer_previous_hash'', PStr (layer_previous_hash e))]"
      by (simp add: to_dict_def None assms(1))
    ultimately show ?thesis
      by (simp only: line_text_without_proof entry_text_without_proof rt)
  next
    case (Some p)
    have "json_roundtrip (PDict (to_dict (e\<lparr>hash := Some h\<rparr>))) =
           PDict [(''data'', json_roundtrip (PDict (data e))),
             (''engine_version'', PStr (engine_version e)), (''hash'', PStr h),
             (''layer'', PStr (layer e)),
             (''layer_previous_hash'', PStr (layer_previous_hash e)),
             (''previous_hash'', PStr (previous_hash e)), (''proof'', PStr p),
             (''ts_unix'', PFloat (ts_unix e)), (''ts_utc'', PStr (ts_utc e)),
             (''type'', PStr (event_type e))]"
      using roundtrip_entry [of "e\<lparr>hash := Some h\<rparr>" h] Some by simp
    with assms(3) have "PDict obj = PDict [(''data'', json_roundtrip (PDict (data e))),
             (''engine_version'', PStr (engine_version e)), (''hash'', PStr h),
             (''layer'', PStr (layer e)),
             (''layer_previous_hash'', PStr (layer_previous_hash e)),
             (''previous_hash'', PStr (previous_hash e)), (''proof'', PStr p),
             (''ts_unix'', PFloat (ts_unix e)), (''ts_utc'', PStr (ts_utc e)),
             (''type'', PStr (event_type e))]"
      by (simp only:)
    then have "obj = [(''data'', json_roundtrip (PDict (data e))),
             (''engine_version'', PStr (engine_version e)), (''hash'', PStr h),
             (''layer'', PStr (layer e)),
             (''layer_previous_hash'', PStr (layer_previous_hash e)),
             (''previous_hash'', PStr (previous_hash e)), (''proof'', PStr p),
             (''ts_unix'', PFloat (ts_unix e)), (''ts_utc'', PStr (ts_utc e)),
             (''type'', PStr (event_type e))]"
      by (simp only: pyval.inject)
    moreover have "to_dict e = [(KStr ''ts_utc'', PStr (ts_utc e)),
        (KStr ''ts_unix'', PFloat (ts_unix e)), (KStr ''layer'', PStr (layer e)),
        (KStr ''type'', PStr (event_type e)), (KStr ''data'', PDict (data e)),
        (KStr ''engine_version'', PStr (engine_version e)),
        (KStr ''previous_hash'', PStr (previous_hash e)),
        (KStr ''layer_previous_hash'', PStr (layer_previous_hash e)),
        (KStr ''proof'', PStr p)]"
      by (simp add: to_dict_def Some assms(1))
    ultimately show ?thesis
      by (simp only: line_text_with_proof entry_text_with_proof rt)
  qed
qed


lemma sortable_to_dict:
  "json_like (PDict d) \<Longrightarrow> data e = d \<Longrightarrow>
   sortable (PDict (dict_pop (to_dict e) (KStr ''hash'')))"
  using json_like_sortable [of "PDict d"]
  by (cases "proof_str e"; cases "hash e")
     (simp_all add: to_dict_def dict_pop_def keys_comparable_def)

lemma append_unfold:
  assumes "readable (file_lines led)"
  shows "append sha256_text led now (PStr lyr) (PStr et) (PDict d) pr =
     (if lyr = [] then Inl (ValueError ''layer must be a non-empty string'')
      else if et = [] then Inl (ValueError ''event_type must be a non-empty string'')
      else
        (let entry = \<lparr>ts_utc = fst now, ts_unix = snd now, layer = lyr, event_type = et,
                        data = d, engine_version = version led,
                        previous_hash = head_global (file_lines led),
                        layer_previous_hash = head_layer lyr (file_lines led),
                        proof_str = pr, hash = None\<rparr>
         in case compute_hash sha256_text entry of
              Inl err \<Rightarrow> Inl err
            | Inr h \<Rightarrow>
                Inr (h, led\<lparr>ledger_file :=
                             Some (file_lines led @ [Parsed (json_roundtrip
                               (PDict (to_dict (entry\<lparr>hash := Some h\<rparr>))))]),
                           last_global_hash := h,
                           last_layer_hash := dict_set (last_layer_hash led) lyr h\<rparr>)))"
  using index_lines_readable [OF assms, of "([], [])"]
  by (simp add: append_def file_lines_def Let_def chain_state_empty [unfolded file_lines_def]
           cong: sum.case_cong)

lemma append_valid_returns:
  assumes r: "readable (file_lines led)" and v: "lyr \<noteq> []" "et \<noteq> []" "json_like (PDict d)"
  shows "\<exists>h led'. append sha256_text led now (PStr lyr) (PStr et) (PDict d) pr = Inr (h, led')"
proof -
  let ?e = "\<lparr>ts_utc = fst now, ts_unix = snd now, layer = lyr, event_type = et,
                        data = d, engine_version = version led,
                        previous_hash = head_global (file_lines led),
                        layer_previous_hash = head_layer lyr (file_lines led),
                        proof_str = pr, hash = None\<rparr>"
  have "sortable (PDict (dict_pop (to_dict ?e) (KStr ''hash'')))"
    by (rule sortable_to_dict [OF v(3)]) simp
  then have "\<exists>h. compute_hash sha256_text ?e = Inr h"
    by (simp add: compute_hash_def canonical_json_def)
  then show ?thesis
    unfolding append_unfold [OF r] using v(1,2) by (auto simp: Let_def)
qed

lemma concat_map_Nil_iff: "concat (map f xs) = [] \<longleftrightarrow> (\<forall>x \<in> set xs. f x = [])"
  by (induction xs) auto

lemma verify_after_append:
  assumes ap: "append sha256_text led now (PStr lyr) (PStr et) (PDict d) pr = Inr (h, led')"
    and jl: "json_like (PDict d)"
    and good: "concat (map (reasons_at sha256_text (file_lines led))
                           [0 ..< length (file_lines led)]) = []"
  shows "verify sha256_text led' =
           Inr \<lparr>ok = True,
                total_entries = length (filter (\<lambda>ln. ln \<noteq> Blank) (file_lines led)) + 1,
                reasons = []\<rparr>"
    and "readable (file_lines led')"
    and "concat (map (reasons_at sha256_text (file_lines led'))
                     [0 ..< length (file_lines led')]) = []"
    and "length (filter (\<lambda>ln. ln \<noteq> Blank) (file_lines led'))
           = length (filter (\<lambda>ln. ln \<noteq> Blank) (file_lines led)) + 1"
    and "ledger_file led' = Some (file_lines led')"
proof -
  let ?lines = "file_lines led"
  let ?e = "\<lparr>ts_utc = fst now, ts_unix = snd now, layer = lyr, event_type = et,
                        data = d, engine_version = version led,
                        previous_hash = head_global ?lines,
                        layer_previous_hash = head_layer lyr ?lines,
                        proof_str = pr, hash = None\<rparr>"
  have r: "readable ?lines" by (rule append_returns(1) [OF ap])
  from ap have hh: "compute_hash sha256_text ?e = Inr h"
    and f': "ledger_file led' = Some (?lines @ [Parsed (json_roundtrip
                               (PDict (to_dict (?e\<lparr>hash := Some h\<rparr>))))])"
    unfolding append_unfold [OF r]
    by (auto simp: Let_def split: if_splits sum.splits)
  from roundtrip_to_dict [of "?e\<lparr>hash := Some h\<rparr>" h]
  obtain obj where obj: "json_roundtrip (PDict (to_dict (?e\<lparr>hash := Some h\<rparr>))) = PDict obj"
    and g: "dict_get obj ''hash'' = Some (PStr h)" "dict_get obj ''layer'' = Some (PStr lyr)"
      "dict_get obj ''previous_hash'' = Some (PStr (head_global ?lines))"
      "dict_get obj ''layer_previous_hash'' = Some (PStr (head_layer lyr ?lines))"
    by auto
  let ?ln = "Parsed (PDict obj)"
  have fl: "file_lines led' = ?lines @ [?ln]"
    using f' obj by (simp add: file_lines_def)
  show f: "ledger_file led' = Some (file_lines led')"
    using f' obj fl by simp
  have "sortable (PDict (dict_pop (to_dict ?e) (KStr ''hash'')))"
    by (rule sortable_to_dict [OF jl]) simp
  with hh have h: "h = sha256_text (canonical_text (PDict (dict_pop (to_dict ?e) (KStr ''hash''))))"
    by (simp add: compute_hash_def canonical_json_def)
  have dig: "object_digest sha256_text obj = h"
    unfolding object_digest_def h
    using written_line_digest [of ?e h obj] jl obj by simp
  have eo: "entry_of ?ln = Some (h, lyr)" by (rule entry_of_object [OF g(1,2)])
  have gd: "dict_get_default obj ''previous_hash'' (PStr []) = PStr (head_global ?lines)"
    "dict_get_default obj ''layer_previous_hash'' (PStr []) = PStr (head_layer lyr ?lines)"
    using g(3,4) by (simp_all add: dict_get_default_def dict_get_def)
  have new: "reasons_at sha256_text (?lines @ [?ln]) (length ?lines) = []"
    by (simp add: reasons_at_def line_reasons_def eo dig gd)
  have old: "reasons_at sha256_text (?lines @ [?ln]) i = []" if "i < length ?lines" for i
  proof -
    have "reasons_at sha256_text (?lines @ [?ln]) i = reasons_at sha256_text ?lines i"
      using that by (simp add: reasons_at_def nth_append)
    with good that show ?thesis by (simp add: concat_map_Nil_iff)
  qed
  show c: "concat (map (reasons_at sha256_text (file_lines led'))
                     [0 ..< length (file_lines led')]) = []"
    unfolding fl concat_map_Nil_iff
    using old new by (auto simp: less_Suc_eq)
  show r': "readable (file_lines led')"
    using r by (simp add: fl readable_def is_object_line_def)
  show n: "length (filter (\<lambda>ln. ln \<noteq> Blank) (file_lines led'))
           = length (filter (\<lambda>ln. ln \<noteq> Blank) (file_lines led)) + 1"
    by (simp add: fl)
  show "verify sha256_text led' =
           Inr \<lparr>ok = True,
                total_entries = length (filter (\<lambda>ln. ln \<noteq> Blank) (file_lines led)) + 1,
                reasons = []\<rparr>"
    using verify_readable [OF f r', of sha256_text] c n by simp
qed

lemma append_all_verify:
  assumes "list_all valid_call calls" and "readable (file_lines led)"
    and "concat (map (reasons_at sha256_text (file_lines led))
                     [0 ..< length (file_lines led)]) = []"
  shows "\<exists>led'. append_all sha256_text led calls = Inr led'
     \<and> readable (file_lines led')
     \<and> concat (map (reasons_at sha256_text (file_lines led'))
                    [0 ..< length (file_lines led')]) = []
     \<and> length (filter (\<lambda>ln. ln \<noteq> Blank) (file_lines led'))
         = length (filter (\<lambda>ln. ln \<noteq> Blank) (file_lines led)) + length calls
     \<and> (calls \<noteq> [] \<longrightarrow> ledger_file led' = Some (file_lines led'))"
  using assms
proof (induction calls arbitrary: led)
  case Nil
  then show ?case by simp
next
  case (Cons c calls)
  obtain now lyr et d pr where c: "c = (now, lyr, et, d, pr)" by (cases c) auto
  from Cons.prems(1) have vc: "valid_call c" and vs: "list_all valid_call calls"
    by simp_all
  from vc have v: "lyr \<noteq> []" "et \<noteq> []" "json_like (PDict d)"
    by (simp_all add: c valid_call_def)
  from append_valid_returns [OF Cons.prems(2) v, of sha256_text now pr]
  obtain h led1 where ap: "append sha256_text led now (PStr lyr) (PStr et) (PDict d) pr = Inr (h, led1)"
    by blast
  note va = verify_after_append [OF ap v(3) Cons.prems(3)]
  from Cons.IH [OF vs va(2) va(3)]
  obtain led' where l: "append_all sha256_text led1 calls = Inr led'"
    "readable (file_lines led')"
    "concat (map (reasons_at sha256_text (file_lines led')) [0 ..< length (file_lines led')]) = []"
    "length (filter (\<lambda>ln. ln \<noteq> Blank) (file_lines led'))
         = length (filter (\<lambda>ln. ln \<noteq> Blank) (file_lines led1)) + length calls"
    "calls \<noteq> [] \<longrightarrow> ledger_file led' = Some (file_lines led')"
    by blast
  have "ledger_file led' = Some (file_lines led')"
  proof (cases calls)
    case Nil
    with l(1) va(5) show ?thesis by simp
  next
    case (Cons a list)
    with l(5) show ?thesis by simp
  qed
  with l va(4) show ?case by (simp add: c ap)
qed

text \<open>
  What does hold of append followed by verify: starting without a file or with an empty
  one, any sequence of calls with a non-empty layer and event type and a payload whose
  dictionaries have string keys returns normally, and \<open>verify\<close> then reports
  \<open>ok = True\<close> and as many entries as there were calls, for every digest; provided there
  was at least one call or the file existed.
\<close>

lemma fresh_ledger_appends_verify:
  assumes "file_lines led = []" and "list_all valid_call calls"
    and "calls \<noteq> [] \<or> ledger_file led = Some []"
  shows "\<exists>led'. append_all sha256_text led calls = Inr led'
     \<and> verify sha256_text led' = Inr \<lparr>ok = True, total_entries = length calls, reasons = []\<rparr>"
proof -
  from append_all_verify [OF assms(2), of led sha256_text] assms(1)
  obtain led' where l: "append_all sha256_text led calls = Inr led'"
    "readable (file_lines led')"
    "concat (map (reasons_at sha256_text (file_lines led')) [0 ..< length (file_lines led')]) = []"
    "length (filter (\<lambda>ln. ln \<noteq> Blank) (file_lines led')) = length calls"
    "calls \<noteq> [] \<longrightarrow> ledger_file led' = Some (file_lines led')"
    by (auto simp: readable_def)
  have f: "ledger_file led' = Some (file_lines led')"
  proof (cases calls)
    case Nil
    with l(1) assms(1,3) show ?thesis by (simp add: file_lines_def)
  next
    case (Cons a list)
    with l(5) show ?thesis by simp
  qed
  from verify_readable [OF f l(2), of sha256_text] l(3,4) l(1) show ?thesis by simp
qed


subsection \<open>Append, then verify\<close>

text \<open>
  C1. A ledger constructed on a path without a file has no file until the first append.
  With no append at all (\<open>N = 0\<close>), \<open>verify\<close> does not return a report with
  \<open>ok = True\<close> and \<open>total_entries = 0\<close>: it raises \<open>FileNotFoundError\<close>, since it opens
  the file for reading without the test for existence that \<open>_index_existing\<close>,
  \<open>_iter_entries\<close> and so \<open>tail\<close> make.
\<close>

theorem verify_missing_file:
  "new_ledger None v = Inr \<lparr>ledger_file = None, version = v, last_global_hash = [],
                            last_layer_hash = []\<rparr>
   \<and> verify sha256_text \<lparr>ledger_file = None, version = v, last_global_hash = [],
                           last_layer_hash = []\<rparr> = Inl FileNotFoundError
   \<and> tail \<lparr>ledger_file = None, version = v, last_global_hash = [], last_layer_hash = []\<rparr> 10 = []"
  by (simp add: new_ledger_def verify_def tail_def iter_entries_def)

text \<open>
  A second way in which an append that returns normally is followed by a failing
  \<open>verify\<close>: a payload with the integer keys 1, 2 and 10. \<open>append\<close> hashes the text with
  the keys in numeric order; the line read back has the string keys "1", "10", "2" in
  that order, so \<open>verify\<close> hashes another text.
\<close>

lemma int_keys_texts_differ:
  "canonical_json (PDict [(KInt 1, PStr ''a''), (KInt 2, PStr ''b''), (KInt 10, PStr ''c'')])
     \<noteq> canonical_json (py_of_json (json_roundtrip
           (PDict [(KInt 1, PStr ''a''), (KInt 2, PStr ''b''), (KInt 10, PStr ''c'')])))"
  by code_simp

lemma verify_after_append_int_keys:
  "(case append plain_digest no_ledger_file (''t1'', ''1.5'') (PStr ''meta'') (PStr ''check'')
          (PDict [(KInt 1, PStr ''a''), (KInt 2, PStr ''b''), (KInt 10, PStr ''c'')]) None of
      Inl e \<Rightarrow> Inl e
    | Inr r \<Rightarrow> verify plain_digest (snd r))
   = Inr \<lparr>ok = False, total_entries = 1, reasons = [''line 1: hash mismatch'']\<rparr>"
  by code_simp


end
